theory Spec2Isabelle
  imports Main "HOL-Library.Word"
begin

unbundle bit_operations_syntax

section \<open>Data model of gp_relaccess_stats.c\<close>

text \<open>
  Host types. \<open>Oid\<close> and \<open>AclMode\<close> are \<open>uint32\<close>; the per-relation counters are
  \<open>int64\<close> and are incremented, so they are 64-bit words whose addition wraps.
  \<open>Timestamp\<close> and \<open>TimestampTz\<close> are 64-bit integers that the module only assigns and
  compares (signed comparison, no arithmetic), so they are integers here.
\<close>

type_synonym Oid = "32 word"
type_synonym AclMode = "32 word"
type_synonym TimestampTz = int
type_synonym int64 = "64 word"

definition InvalidOid :: Oid where
  "InvalidOid = 0"

text \<open>
  The privilege bits of the host header \<open>nodes/parsenodes.h\<close>, which is not part of the
  module: \<open>ACL_INSERT = 1<<0\<close>, \<open>ACL_SELECT = 1<<1\<close>, \<open>ACL_UPDATE = 1<<2\<close>,
  \<open>ACL_DELETE = 1<<3\<close>, \<open>ACL_TRUNCATE = 1<<4\<close>.
\<close>

definition ACL_INSERT :: AclMode where
  "ACL_INSERT = 1"

definition ACL_SELECT :: AclMode where
  "ACL_SELECT = 2"

definition ACL_UPDATE :: AclMode where
  "ACL_UPDATE = 4"

definition ACL_DELETE :: AclMode where
  "ACL_DELETE = 8"

definition ACL_TRUNCATE :: AclMode where
  "ACL_TRUNCATE = 16"

text \<open>\<open>NAMEDATALEN\<close> of the host (\<open>pg_config_manual.h\<close>): the size of a name buffer.\<close>

definition NAMEDATALEN :: nat where
  "NAMEDATALEN = 64"

text \<open>\<open>strlcpy(dst, src, siz)\<close>: at most \<open>siz - 1\<close> characters are copied.\<close>

definition strlcpy :: "string \<Rightarrow> nat \<Rightarrow> string" where
  "strlcpy src siz = take (siz - 1) src"

record relaccessHashKey =
  dbid :: Oid
  relid :: Oid

record relaccessEntry =
  key :: relaccessHashKey
  relname :: string
  last_reader_id :: Oid
  last_writer_id :: Oid
  last_read :: TimestampTz
  last_write :: TimestampTz
  n_select :: int64
  n_insert :: int64
  n_update :: int64
  n_delete :: int64
  n_truncate :: int64

text \<open>
  The fields of \<open>localAccessKey\<close>, \<open>localAccessEntry\<close> and \<open>relnameCacheEntry\<close> carry a
  prefix where the C name is already a field of \<open>relaccessEntry\<close>.
\<close>

record localAccessKey =
  l_relid :: Oid
  stmt_cnt :: "32 word"

record localAccessEntry =
  l_key :: localAccessKey
  l_last_reader_id :: Oid
  l_last_writer_id :: Oid
  l_last_read :: TimestampTz
  l_last_write :: TimestampTz
  perms :: AclMode

record relnameCacheEntry =
  c_relid :: Oid
  c_relname :: string

subsection \<open>Classification of a permission set\<close>

text \<open>The macros \<open>is_write\<close> and \<open>is_read\<close> (lines 162-165).\<close>

definition is_write :: "AclMode \<Rightarrow> bool" where
  "is_write p \<longleftrightarrow> (p AND (ACL_INSERT OR ACL_UPDATE OR ACL_DELETE OR ACL_TRUNCATE)) \<noteq> 0"

definition is_read :: "AclMode \<Rightarrow> bool" where
  "is_read p \<longleftrightarrow> \<not> is_write p \<and> (p AND ACL_SELECT) \<noteq> 0"

section \<open>Hash tables, environment and state\<close>

text \<open>
  The three dynahash tables are association lists in iteration order: a sequential scan
  (\<open>hash_seq_search\<close>) visits the list from its head, and a new element goes to the end.
  \<open>hash_find\<close> is \<open>hash_search\<close> with \<open>HASH_FIND\<close>, \<open>hash_remove\<close> is \<open>HASH_REMOVE\<close>, and
  \<open>hash_store\<close> writes back an element that the C code changes through the pointer that
  \<open>hash_search\<close> returned.
\<close>

definition hash_find :: "('e \<Rightarrow> 'k) \<Rightarrow> 'e list \<Rightarrow> 'k \<Rightarrow> 'e option" where
  "hash_find kf tab k = List.find (\<lambda>e. kf e = k) tab"

definition hash_remove :: "('e \<Rightarrow> 'k) \<Rightarrow> 'e list \<Rightarrow> 'k \<Rightarrow> 'e list" where
  "hash_remove kf tab k = filter (\<lambda>e. kf e \<noteq> k) tab"

definition hash_store :: "('e \<Rightarrow> 'k) \<Rightarrow> 'e list \<Rightarrow> 'e \<Rightarrow> 'e list" where
  "hash_store kf tab e = map (\<lambda>x. if kf x = kf e then e else x) tab"

text \<open>
  \<open>hash_search\<close> with \<open>HASH_ENTER_NULL\<close> on the shared table, which \<open>ShmemInitHash\<close>
  creates with \<open>HASH_FIXED_SIZE\<close> and \<open>relaccess_size\<close> elements: an existing element is
  returned with \<open>found = true\<close>; otherwise a free element is taken while there is one,
  its key is set, and it is returned with \<open>found = false\<close>; otherwise the result is
  \<open>NULL\<close>. dynahash does not clear the element it hands out: \<open>raw\<close> is what the free
  element held.
\<close>

definition hash_enter_null ::
  "nat \<Rightarrow> relaccessEntry \<Rightarrow> relaccessEntry list \<Rightarrow> relaccessHashKey \<Rightarrow>
   relaccessEntry list \<times> relaccessEntry option \<times> bool" where
  "hash_enter_null max_size raw tab k =
     (case hash_find key tab k of
        Some e \<Rightarrow> (tab, Some e, True)
      | None \<Rightarrow>
          if length tab < max_size then (tab @ [raw\<lparr>key := k\<rparr>], Some (raw\<lparr>key := k\<rparr>), False)
          else (tab, None, False))"

datatype GpRoleValue = GP_ROLE_DISPATCH | GP_ROLE_EXECUTE | GP_ROLE_UTILITY

datatype XactEvent = XACT_EVENT_COMMIT | XACT_EVENT_ABORT | XACT_EVENT_PREPARE

text \<open>
  \<open>SPI_execute\<close> of the ingestion query either raises an error of its own
  (\<open>ereport(ERROR)\<close>, a non-local exit) or returns a code, negative on failure.
\<close>

datatype spi_outcome = SPI_raises | SPI_returns int

datatype error = SPI_connect_failure int | SPI_execute_failure int | SPI_query_error

datatype warning =
    WARNING_unable_to_dump
  | WARNING_max_tables_exceeded
  | WARNING_could_not_write Oid

text \<open>
  What a call reads from the server around it: the settings, the database of the
  session, and the answers of the host functions. \<open>fwrite_ok d e\<close> says whether
  \<open>fwrite\<close> of record \<open>e\<close> to the dump file of database \<open>d\<close> returns 1. \<open>raw_entry\<close> and
  \<open>raw_relname\<close> are the contents of the free hash elements that \<open>HASH_ENTER_NULL\<close> and
  \<open>HASH_ENTER\<close> hand out during a commit. \<open>AllocateFile\<close> in mode \<open>"ab"\<close> is taken to
  succeed (it creates the file when there is none), a failed \<open>fwrite\<close> is taken to
  write nothing, and \<open>get_rel_name\<close> is taken to find the relation.
\<close>

record env =
  MyDatabaseId :: Oid
  Gp_role :: GpRoleValue
  is_enabled :: bool
  relaccess_size :: nat
  dump_on_overflow :: bool
  fwrite_ok :: "Oid \<Rightarrow> relaccessEntry \<Rightarrow> bool"
  get_rel_name :: "Oid \<Rightarrow> string"
  SPI_connect_result :: int
  SPI_execute_result :: spi_outcome
  raw_entry :: relaccessEntry
  raw_relname :: string

text \<open>
  \<open>relaccesses\<close> and the dump files (\<open>dumpfiles d\<close> is the sequence of records in the file
  of database \<open>d\<close>, \<open>None\<close> when there is no file) are shared by all backends; the other
  fields are the static variables of one backend. \<open>warnings\<close> collects the
  \<open>WARNING\<close> messages in the order they are raised.
\<close>

record state =
  relaccesses :: "relaccessEntry list"
  dumpfiles :: "Oid \<Rightarrow> relaccessEntry list option"
  local_access_entries :: "localAccessEntry list"
  relname_cache :: "relnameCacheEntry list"
  stmt_counter :: "32 word"
  had_ht_overflow :: bool
  warnings :: "warning list"

section \<open>Recording accesses in the transaction\<close>

text \<open>
  Lines 715-723 of \<open>memorize_local_access_entry\<close>: the user and the time are stored on
  the read side, the write side, or neither, as the permission set of this access is
  classified. \<open>uid\<close> is \<open>GetUserId()\<close> and \<open>curts\<close> is \<open>GetCurrentTimestamp()\<close>.
\<close>

definition stamp_access ::
  "Oid \<Rightarrow> TimestampTz \<Rightarrow> AclMode \<Rightarrow> localAccessEntry \<Rightarrow> localAccessEntry" where
  "stamp_access uid curts p entry =
     (let entry1 = (if is_read p
                    then entry\<lparr>l_last_reader_id := uid, l_last_read := curts\<rparr> else entry)
      in if is_write p
         then entry1\<lparr>l_last_writer_id := uid, l_last_write := curts\<rparr> else entry1)"

text \<open>
  \<open>memorize_local_access_entry\<close> (lines 700-724). \<open>raw\<close> is the content of the element
  that \<open>HASH_ENTER\<close> hands out for a new key. For a new key the code sets \<open>last_read\<close>
  and \<open>last_write\<close> (first to \<open>InvalidOid\<close>, then to 0) and \<open>perms\<close>, and leaves the two
  user ids as they were in the element.
\<close>

definition memorize_local_access_entry ::
  "localAccessEntry \<Rightarrow> Oid \<Rightarrow> TimestampTz \<Rightarrow> Oid \<Rightarrow> AclMode \<Rightarrow> state \<Rightarrow> state" where
  "memorize_local_access_entry raw uid curts rel p s =
     (let k = \<lparr>l_relid = rel, stmt_cnt = stmt_counter s\<rparr>
      in case hash_find l_key (local_access_entries s) k of
           None \<Rightarrow>
             s\<lparr>local_access_entries := local_access_entries s @
                  [stamp_access uid curts p
                     (raw\<lparr>l_key := k, l_last_read := 0, l_last_write := 0, perms := p\<rparr>)]\<rparr>
         | Some entry \<Rightarrow>
             s\<lparr>local_access_entries :=
                  hash_store l_key (local_access_entries s)
                    (stamp_access uid curts p (entry\<lparr>perms := perms entry OR p\<rparr>))\<rparr>)"

text \<open>
  The accesses of one statement to one relation, in the order they are recorded: one
  call of \<open>memorize_local_access_entry\<close> for each, with the permission set, the user
  and the clock reading of that call.
\<close>

fun record_accesses ::
  "localAccessEntry \<Rightarrow> Oid \<Rightarrow> (AclMode \<times> Oid \<times> TimestampTz) list \<Rightarrow> state \<Rightarrow> state" where
  "record_accesses raw rel [] s = s"
| "record_accesses raw rel ((p, uid, curts) # evs) s =
     record_accesses raw rel evs (memorize_local_access_entry raw uid curts rel p s)"

text \<open>
  \<open>update_relname_cache\<close> (lines 671-698): the first name seen for a relation in the
  transaction stays. The name is looked up with \<open>get_rel_name\<close> when the caller passes
  \<open>NULL\<close> (\<open>None\<close>).
\<close>

definition update_relname_cache :: "env \<Rightarrow> Oid \<Rightarrow> string option \<Rightarrow> state \<Rightarrow> state" where
  "update_relname_cache ev rel name s =
     (case hash_find c_relid (relname_cache s) rel of
        Some e \<Rightarrow> s
      | None \<Rightarrow>
          s\<lparr>relname_cache := relname_cache s @
               [\<lparr>c_relid = rel,
                 c_relname = (case name of
                                None \<Rightarrow> strlcpy (get_rel_name ev rel) NAMEDATALEN
                              | Some n \<Rightarrow> strlcpy n NAMEDATALEN)\<rparr>]\<rparr>)"

text \<open>\<open>relaccess_executor_end_hook\<close> (lines 726-736), without the hook chain.\<close>

definition relaccess_executor_end_hook :: "state \<Rightarrow> state" where
  "relaccess_executor_end_hook s = s\<lparr>stmt_counter := stmt_counter s + 1\<rparr>"

section \<open>Dumping the shared table to files\<close>

text \<open>
  \<open>add_file_dump_entry\<close> (lines 583-592). The file mapping is the list of databases whose
  file is open; opening in append mode creates an empty file when there is none.
\<close>

definition add_file_dump_entry :: "Oid \<Rightarrow> Oid list \<times> state \<Rightarrow> Oid list \<times> state" where
  "add_file_dump_entry d fs =
     (case fs of (files, s) \<Rightarrow>
        if d \<in> set files then (files, s)
        else (files @ [d],
              s\<lparr>dumpfiles := (dumpfiles s)
                   (d := Some (case dumpfiles s d of None \<Rightarrow> [] | Some c \<Rightarrow> c))\<rparr>))"

text \<open>
  The loop of \<open>relaccess_dump_to_files_internal\<close> (lines 630-648) over the elements still
  to visit. An element of a database without an open file is skipped (\<open>continue\<close>); a
  failed \<open>fwrite\<close> raises a warning and leaves the loop (\<open>break\<close>); after a successful
  \<open>fwrite\<close> the element is removed and \<open>had_ht_overflow\<close> is cleared.
\<close>

fun dump_scan :: "env \<Rightarrow> Oid list \<Rightarrow> relaccessEntry list \<Rightarrow> state \<Rightarrow> state" where
  "dump_scan ev files [] s = s"
| "dump_scan ev files (entry # rest) s =
     (if dbid (key entry) \<notin> set files then dump_scan ev files rest s
      else if \<not> fwrite_ok ev (dbid (key entry)) entry
      then s\<lparr>warnings := warnings s @ [WARNING_could_not_write (dbid (key entry))]\<rparr>
      else dump_scan ev files rest
             (s\<lparr>dumpfiles := (dumpfiles s)
                   (dbid (key entry) :=
                      Some ((case dumpfiles s (dbid (key entry)) of None \<Rightarrow> [] | Some c \<Rightarrow> c)
                            @ [entry])),
                relaccesses := hash_remove key (relaccesses s) (key entry),
                had_ht_overflow := False\<rparr>))"

definition relaccess_dump_to_files_internal :: "env \<Rightarrow> Oid list \<Rightarrow> state \<Rightarrow> state" where
  "relaccess_dump_to_files_internal ev files s = dump_scan ev files (relaccesses s) s"

text \<open>\<open>relaccess_dump_to_files\<close> (lines 594-624).\<close>

definition relaccess_dump_to_files :: "env \<Rightarrow> bool \<Rightarrow> state \<Rightarrow> state" where
  "relaccess_dump_to_files ev only_this_db s =
     (case (if only_this_db then add_file_dump_entry (MyDatabaseId ev) ([], s)
            else fold (\<lambda>access_entry. add_file_dump_entry (dbid (key access_entry)))
                   (relaccesses s) ([], s)) of
        (file_mapping, s1) \<Rightarrow> relaccess_dump_to_files_internal ev file_mapping s1)"

text \<open>\<open>relaccess_stats_dump\<close> (lines 477-482).\<close>

definition relaccess_stats_dump :: "env \<Rightarrow> state \<Rightarrow> state" where
  "relaccess_stats_dump ev s = relaccess_dump_to_files ev True s"

text \<open>
  \<open>relaccess_stats_from_dump\<close> (lines 491-574): the records of the dump file of the
  session's database, read until \<open>fread\<close> fails, each returned as a row of 11 columns.
\<close>

record stats_row =
  row_relid :: Oid
  row_relname :: string
  row_last_reader_id :: Oid
  row_last_writer_id :: Oid
  row_last_read :: TimestampTz
  row_last_write :: TimestampTz
  row_n_select_queries :: int64
  row_n_insert_queries :: int64
  row_n_update_queries :: int64
  row_n_delete_queries :: int64
  row_n_truncate_queries :: int64

definition row_of_entry :: "relaccessEntry \<Rightarrow> stats_row" where
  "row_of_entry e =
     \<lparr>row_relid = relid (key e), row_relname = relname e,
      row_last_reader_id = last_reader_id e, row_last_writer_id = last_writer_id e,
      row_last_read = last_read e, row_last_write = last_write e,
      row_n_select_queries = n_select e, row_n_insert_queries = n_insert e,
      row_n_update_queries = n_update e, row_n_delete_queries = n_delete e,
      row_n_truncate_queries = n_truncate e\<rparr>"

definition relaccess_stats_from_dump :: "env \<Rightarrow> state \<Rightarrow> stats_row list" where
  "relaccess_stats_from_dump ev s =
     (case dumpfiles s (MyDatabaseId ev) of
        None \<Rightarrow> []
      | Some stats_entries \<Rightarrow> map row_of_entry stats_entries)"

section \<open>Merging at commit\<close>

text \<open>
  Lines 424-452 of \<open>relaccess_xact_callback\<close>: a new element gets its ids, times and
  counters cleared; each counter grows by one when its bit is in \<open>perms\<close>
  (\<open>UPDATE_STAT\<close>); a time and its user id are taken from the transaction's element
  when that time is greater; the name is copied from the name cache, where
  \<open>HASH_ENTER\<close> makes an element (with whatever name the free element held) when there
  is none.
\<close>

definition clear_entry :: "relaccessEntry \<Rightarrow> relaccessEntry" where
  "clear_entry d =
     d\<lparr>last_reader_id := InvalidOid, last_writer_id := InvalidOid,
       last_read := 0, last_write := 0,
       n_select := 0, n_insert := 0, n_update := 0, n_delete := 0, n_truncate := 0\<rparr>"

definition UPDATE_STAT :: "int64 \<Rightarrow> localAccessEntry \<Rightarrow> AclMode \<Rightarrow> int64" where
  "UPDATE_STAT n src_entry acl = n + (if (perms src_entry AND acl) \<noteq> 0 then 1 else 0)"

definition update_entry :: "localAccessEntry \<Rightarrow> relaccessEntry \<Rightarrow> relaccessEntry" where
  "update_entry src_entry d =
     (let d1 = d\<lparr>n_select := UPDATE_STAT (n_select d) src_entry ACL_SELECT,
                 n_insert := UPDATE_STAT (n_insert d) src_entry ACL_INSERT,
                 n_update := UPDATE_STAT (n_update d) src_entry ACL_UPDATE,
                 n_delete := UPDATE_STAT (n_delete d) src_entry ACL_DELETE,
                 n_truncate := UPDATE_STAT (n_truncate d) src_entry ACL_TRUNCATE\<rparr>;
          d2 = (if l_last_read src_entry > last_read d1
                then d1\<lparr>last_read := l_last_read src_entry,
                        last_reader_id := l_last_reader_id src_entry\<rparr>
                else d1)
      in if l_last_write src_entry > last_write d2
         then d2\<lparr>last_write := l_last_write src_entry,
                 last_writer_id := l_last_writer_id src_entry\<rparr>
         else d2)"

definition record_entry ::
  "env \<Rightarrow> localAccessEntry \<Rightarrow> relaccessEntry \<Rightarrow> bool \<Rightarrow> state \<Rightarrow> state" where
  "record_entry ev src_entry dst_entry found s =
     (let d = update_entry src_entry (if \<not> found then clear_entry dst_entry else dst_entry);
          rel = relid (key dst_entry);
          cache = (case hash_find c_relid (relname_cache s) rel of
                     Some c \<Rightarrow> relname_cache s
                   | None \<Rightarrow> relname_cache s @ [\<lparr>c_relid = rel, c_relname = raw_relname ev\<rparr>]);
          name = (case hash_find c_relid (relname_cache s) rel of
                    Some c \<Rightarrow> c_relname c
                  | None \<Rightarrow> raw_relname ev)
      in s\<lparr>relaccesses := hash_store key (relaccesses s) (d\<lparr>relname := strlcpy name NAMEDATALEN\<rparr>),
           relname_cache := cache\<rparr>)"

text \<open>
  Lines 393-403: with the table at \<open>relaccess_size\<close> elements the key is only looked up
  (\<open>HASH_FIND\<close>), otherwise it is looked up or entered (\<open>HASH_ENTER_NULL\<close>). The result
  is the table, the element or \<open>NULL\<close>, and \<open>found\<close>.
\<close>

definition find_or_insert ::
  "env \<Rightarrow> relaccessEntry list \<Rightarrow> relaccessHashKey \<Rightarrow>
   relaccessEntry list \<times> relaccessEntry option \<times> bool" where
  "find_or_insert ev tab k =
     (let n_access_records = length tab
      in if n_access_records = relaccess_size ev
         then (tab, hash_find key tab k, hash_find key tab k \<noteq> None)
         else hash_enter_null (relaccess_size ev) (raw_entry ev) tab k)"

text \<open>
  One pass of the loop of \<open>relaccess_xact_callback\<close> over an element of the
  transaction (lines 389-461).
\<close>

definition merge_entry :: "env \<Rightarrow> localAccessEntry \<Rightarrow> state \<Rightarrow> state" where
  "merge_entry ev src_entry s =
     (let k = \<lparr>dbid = MyDatabaseId ev, relid = l_relid (l_key src_entry)\<rparr>
      in case find_or_insert ev (relaccesses s) k of
           (tab, Some dst_entry, found) \<Rightarrow>
             record_entry ev src_entry dst_entry found (s\<lparr>relaccesses := tab\<rparr>)
         | (tab, None, found) \<Rightarrow>
             if dump_on_overflow ev then
               (let s1 = relaccess_dump_to_files ev False (s\<lparr>relaccesses := tab\<rparr>)
                in case hash_enter_null (relaccess_size ev) (raw_entry ev) (relaccesses s1) k of
                     (tab1, None, found1) \<Rightarrow>
                       if \<not> had_ht_overflow s1
                       then s1\<lparr>relaccesses := tab1,
                               warnings := warnings s1 @ [WARNING_unable_to_dump],
                               had_ht_overflow := True\<rparr>
                       else s1\<lparr>relaccesses := tab1\<rparr>
                   | (tab1, Some dst_entry, found1) \<Rightarrow>
                       record_entry ev src_entry dst_entry found1
                         (s1\<lparr>relaccesses := tab1, had_ht_overflow := False\<rparr>))
             else (if \<not> had_ht_overflow s
                   then s\<lparr>relaccesses := tab,
                          warnings := warnings s @ [WARNING_max_tables_exceeded],
                          had_ht_overflow := True\<rparr>
                   else s\<lparr>relaccesses := tab, had_ht_overflow := True\<rparr>))"

text \<open>\<open>relaccess_xact_callback\<close> (lines 377-470).\<close>

definition relaccess_xact_callback :: "env \<Rightarrow> XactEvent \<Rightarrow> state \<Rightarrow> state" where
  "relaccess_xact_callback ev event s =
     (if Gp_role ev \<noteq> GP_ROLE_DISPATCH \<or> \<not> is_enabled ev then s
      else if event = XACT_EVENT_COMMIT
      then (fold (merge_entry ev) (local_access_entries s) s)
             \<lparr>local_access_entries := [], relname_cache := []\<rparr>
      else if event = XACT_EVENT_ABORT
      then s\<lparr>local_access_entries := [], relname_cache := []\<rparr>
      else s)"

section \<open>Flush and ingest\<close>

text \<open>
  \<open>relaccess_upsert_from_file\<close> (lines 651-669). The result is the error raised, if any,
  with the state at that moment. When \<open>SPI_execute\<close> raises, control leaves the
  function there; when it returns, the file is unlinked before the code is looked at.
\<close>

definition relaccess_upsert_from_file :: "env \<Rightarrow> state \<Rightarrow> error option \<times> state" where
  "relaccess_upsert_from_file ev s =
     (if SPI_connect_result ev < 0 then (Some (SPI_connect_failure (SPI_connect_result ev)), s)
      else case SPI_execute_result ev of
             SPI_raises \<Rightarrow> (Some SPI_query_error, s)
           | SPI_returns ret \<Rightarrow>
               (let s1 = s\<lparr>dumpfiles := (dumpfiles s)(MyDatabaseId ev := None)\<rparr>
                in if ret < 0 then (Some (SPI_execute_failure ret), s1) else (None, s1)))"

text \<open>\<open>relaccess_stats_update_internal\<close> (lines 576-581), called by \<open>relaccess_stats_update\<close>.\<close>

definition relaccess_stats_update_internal :: "env \<Rightarrow> state \<Rightarrow> error option \<times> state" where
  "relaccess_stats_update_internal ev s =
     relaccess_upsert_from_file ev (relaccess_dump_to_files ev True s)"

definition relaccess_stats_update :: "env \<Rightarrow> state \<Rightarrow> error option \<times> state" where
  "relaccess_stats_update ev s = relaccess_stats_update_internal ev s"

section \<open>Concrete inputs\<close>

text \<open>
  An environment, an empty state and elements used to run the functions on concrete
  inputs: a dispatcher session in database 1 with collection enabled, the smallest
  table size the setting \<open>gp_relaccess_stats.max_tables\<close> accepts (128), and free hash
  elements that still hold old values.
\<close>

definition entry0 :: relaccessEntry where
  "entry0 = \<lparr>key = \<lparr>dbid = 1, relid = 7\<rparr>, relname = ''t7'',
             last_reader_id = 10, last_writer_id = 0, last_read = 100, last_write = 0,
             n_select = 1, n_insert = 0, n_update = 0, n_delete = 0, n_truncate = 0\<rparr>"

definition entry1 :: relaccessEntry where
  "entry1 = \<lparr>key = \<lparr>dbid = 1, relid = 8\<rparr>, relname = ''t8'',
             last_reader_id = 0, last_writer_id = 11, last_read = 0, last_write = 200,
             n_select = 0, n_insert = 2, n_update = 0, n_delete = 0, n_truncate = 0\<rparr>"

definition entry2 :: relaccessEntry where
  "entry2 = \<lparr>key = \<lparr>dbid = 2, relid = 5\<rparr>, relname = ''t5'',
             last_reader_id = 12, last_writer_id = 0, last_read = 300, last_write = 0,
             n_select = 3, n_insert = 0, n_update = 0, n_delete = 0, n_truncate = 0\<rparr>"

text \<open>A shared table filled to 128 elements by relations of database 2.\<close>

definition store128 :: "relaccessEntry list" where
  "store128 =
     map (\<lambda>i. entry2\<lparr>key := \<lparr>dbid = 2, relid = 16384 + of_nat i\<rparr>\<rparr>) [0..<128]"

definition stale_entry :: relaccessEntry where
  "stale_entry = \<lparr>key = \<lparr>dbid = 9, relid = 9\<rparr>, relname = ''old'',
                  last_reader_id = 77, last_writer_id = 78, last_read = 555, last_write = 556,
                  n_select = 41, n_insert = 42, n_update = 43, n_delete = 44, n_truncate = 45\<rparr>"

definition stale_local :: localAccessEntry where
  "stale_local = \<lparr>l_key = \<lparr>l_relid = 9, stmt_cnt = 9\<rparr>,
                  l_last_reader_id = 77, l_last_writer_id = 78,
                  l_last_read = 555, l_last_write = 556, perms = 31\<rparr>"

definition env0 :: env where
  "env0 = \<lparr>MyDatabaseId = 1, Gp_role = GP_ROLE_DISPATCH, is_enabled = True,
           relaccess_size = 128, dump_on_overflow = False,
           fwrite_ok = (\<lambda>d e. True), get_rel_name = (\<lambda>r. ''t''),
           SPI_connect_result = 1, SPI_execute_result = SPI_returns 5,
           raw_entry = stale_entry, raw_relname = ''old''\<rparr>"

definition state0 :: state where
  "state0 = \<lparr>relaccesses = [], dumpfiles = (\<lambda>d. None), local_access_entries = [],
             relname_cache = [], stmt_counter = 0, had_ht_overflow = False, warnings = []\<rparr>"

definition staged0 :: localAccessEntry where
  "staged0 = \<lparr>l_key = \<lparr>l_relid = 7, stmt_cnt = 0\<rparr>,
              l_last_reader_id = 12, l_last_writer_id = 78,
              l_last_read = 500, l_last_write = 0, perms = ACL_SELECT\<rparr>"

text \<open>
  Two backends on one shared table. Backend 1 (database 1) commits an insert into
  relation 7 while the table is full of elements of database 2.
\<close>

definition backend1_overflowed :: state where
  "backend1_overflowed =
     relaccess_xact_callback env0 XACT_EVENT_COMMIT
       (update_relname_cache env0 7 None
          (memorize_local_access_entry stale_local 10 1000 7 ACL_INSERT
             (state0\<lparr>relaccesses := store128\<rparr>)))"

text \<open>
  Then backend 2 (database 2) calls \<open>relaccess_stats_dump\<close> on the shared table and files;
  its own static variables are those of a fresh backend.
\<close>

definition backend2_dumped :: state where
  "backend2_dumped =
     relaccess_stats_dump (env0\<lparr>MyDatabaseId := 2\<rparr>)
       (state0\<lparr>relaccesses := relaccesses backend1_overflowed,
               dumpfiles := dumpfiles backend1_overflowed\<rparr>)"

text \<open>
  Then backend 1, which sees the shared table and files as backend 2 left them, commits
  a select on relation 8.
\<close>

definition backend1_inserted :: state where
  "backend1_inserted =
     relaccess_xact_callback env0 XACT_EVENT_COMMIT
       (update_relname_cache env0 8 None
          (memorize_local_access_entry stale_local 10 2000 8 ACL_SELECT
             (backend1_overflowed\<lparr>relaccesses := relaccesses backend2_dumped,
                                  dumpfiles := dumpfiles backend2_dumped\<rparr>)))"



text \<open>
  One backend: an insert into relation 7 is recorded, collection is switched off
  (\<open>SET gp_relaccess_stats.enabled = off\<close>) and the transaction is rolled back; the
  setting is back on afterwards, and the next transaction commits.
\<close>

definition rolled_back_while_disabled :: state where
  "rolled_back_while_disabled =
     relaccess_xact_callback (env0\<lparr>is_enabled := False\<rparr>) XACT_EVENT_ABORT
       (update_relname_cache env0 7 None
          (memorize_local_access_entry stale_local 10 1000 7 ACL_INSERT state0))"

definition committed_after_rollback :: state where
  "committed_after_rollback =
     relaccess_xact_callback env0 XACT_EVENT_COMMIT rolled_back_while_disabled"

section \<open>Facts about the permission bits\<close>

lemma and_or_nonzero:
  fixes p :: "'a::len word"
  shows "p AND (a OR b) \<noteq> 0 \<longleftrightarrow> p AND a \<noteq> 0 \<or> p AND b \<noteq> 0"
  by (simp add: bit.conj_disj_distrib or_eq_0_iff)

section \<open>Facts about the hash table operations\<close>

lemma set_hash_store: "set (hash_store kf tab d) \<subseteq> insert d (set tab)"
  by (auto simp: hash_store_def)

lemma map_key_hash_store: "map kf (hash_store kf tab d) = map kf tab"
  by (induction tab) (simp_all add: hash_store_def)

lemma hash_find_None_iff: "hash_find kf tab k = None \<longleftrightarrow> k \<notin> kf ` set tab"
  by (auto simp: hash_find_def find_None_iff)

lemma hash_find_append:
  "hash_find kf (tab @ [d]) k =
     (case hash_find kf tab k of Some e \<Rightarrow> Some e | None \<Rightarrow> if kf d = k then Some d else None)"
  by (induction tab) (simp_all add: hash_find_def)


lemma hash_find_store:
  "hash_find kf (hash_store kf tab d) k =
     (if k = kf d then (case hash_find kf tab k of None \<Rightarrow> None | Some e \<Rightarrow> Some d)
      else hash_find kf tab k)"
  by (induction tab) (auto simp: hash_find_def hash_store_def)

lemma hash_find_filter_keys:
  "hash_find kf (filter (\<lambda>e. kf e \<notin> K) tab) k = (if k \<in> K then None else hash_find kf tab k)"
  by (induction tab) (auto simp: hash_find_def)

lemma hash_find_Some_key: "hash_find kf tab k = Some e \<Longrightarrow> kf e = k \<and> e \<in> set tab"
  by (induction tab) (auto simp: hash_find_def split: if_splits)

lemma length_hash_store: "length (hash_store kf tab d) = length tab"
  by (simp add: hash_store_def)

lemma hash_store_append_new:
  "hash_find kf tab (kf d) = None \<Longrightarrow> kf n = kf d \<Longrightarrow> hash_store kf (tab @ [n]) d = tab @ [d]"
  by (induction tab) (auto simp: hash_store_def hash_find_def split: if_splits)

section \<open>Facts about a dump\<close>


lemma dump_scan_ok_relaccesses:
  "\<forall>x\<in>set xs. dbid (key x) \<in> set files \<longrightarrow> fwrite_ok ev (dbid (key x)) x \<Longrightarrow>
   relaccesses (dump_scan ev files xs s) =
     filter (\<lambda>e. key e \<notin> key ` set (filter (\<lambda>x. dbid (key x) \<in> set files) xs))
       (relaccesses s)"
proof (induction xs arbitrary: s)
  case Nil
  then show ?case by simp
next
  case (Cons x xs)
  show ?case
  proof (cases "dbid (key x) \<in> set files")
    case True
    with Cons.prems have ok: "fwrite_ok ev (dbid (key x)) x" by simp
    have rest: "\<forall>y\<in>set xs. dbid (key y) \<in> set files \<longrightarrow> fwrite_ok ev (dbid (key y)) y"
      using Cons.prems by simp
    show ?thesis
      using True ok Cons.IH [OF rest]
      by (auto simp: hash_remove_def intro!: filter_cong)
  next
    case False
    then show ?thesis using Cons by simp
  qed
qed

lemma dump_scan_ok_dumpfiles:
  "\<forall>x\<in>set xs. dbid (key x) \<in> set files \<longrightarrow> fwrite_ok ev (dbid (key x)) x \<Longrightarrow>
   dumpfiles (dump_scan ev files xs s) d =
     (if d \<in> set files \<and> filter (\<lambda>x. dbid (key x) = d) xs \<noteq> []
      then Some ((case dumpfiles s d of None \<Rightarrow> [] | Some c \<Rightarrow> c) @ filter (\<lambda>x. dbid (key x) = d) xs)
      else dumpfiles s d)"
proof (induction xs arbitrary: s)
  case Nil
  then show ?case by simp
next
  case (Cons x xs)
  have rest: "\<forall>y\<in>set xs. dbid (key y) \<in> set files \<longrightarrow> fwrite_ok ev (dbid (key y)) y"
    using Cons.prems by simp
  show ?case
    using Cons.prems Cons.IH [OF rest]
    by (auto split: option.splits)
qed


lemma dump_scan_filter:
  "\<exists>K. relaccesses (dump_scan ev files xs s) = filter (\<lambda>e. key e \<notin> K) (relaccesses s)"
proof (induction xs arbitrary: s)
  case Nil
  have "relaccesses (dump_scan ev files [] s) = filter (\<lambda>e. key e \<notin> {}) (relaccesses s)"
    by simp
  then show ?case by (rule exI [of _ "{}"])
next
  case (Cons x xs)
  show ?case
  proof (cases "dbid (key x) \<in> set files \<and> fwrite_ok ev (dbid (key x)) x")
    case True
    let ?s1 = "s\<lparr>dumpfiles := (dumpfiles s)
                   (dbid (key x) :=
                      Some ((case dumpfiles s (dbid (key x)) of None \<Rightarrow> [] | Some c \<Rightarrow> c) @ [x])),
                relaccesses := hash_remove key (relaccesses s) (key x),
                had_ht_overflow := False\<rparr>"
    from Cons.IH [of ?s1] obtain K where
      K: "relaccesses (dump_scan ev files xs ?s1) = filter (\<lambda>e. key e \<notin> K) (relaccesses ?s1)"
      by blast
    have "relaccesses (dump_scan ev files (x # xs) s) =
            filter (\<lambda>e. key e \<notin> insert (key x) K) (relaccesses s)"
      using True K by (simp add: hash_remove_def conj_commute)
    then show ?thesis by (rule exI [of _ "insert (key x) K"])
  next
    case False
    then consider "dbid (key x) \<notin> set files"
      | "dbid (key x) \<in> set files" "\<not> fwrite_ok ev (dbid (key x)) x" by blast
    then show ?thesis
    proof cases
      case 1
      then show ?thesis using Cons.IH [of s] by simp
    next
      case 2
      then have "relaccesses (dump_scan ev files (x # xs) s) =
                   filter (\<lambda>e. key e \<notin> {}) (relaccesses s)"
        by simp
      then show ?thesis by (rule exI [of _ "{}"])
    qed
  qed
qed

lemma fold_add_file_dump_entry:
  "fold (\<lambda>e. add_file_dump_entry (dbid (key e))) xs (files, s) = (files', s') \<Longrightarrow>
   set files' = set files \<union> (\<lambda>e. dbid (key e)) ` set xs \<and>
   relaccesses s' = relaccesses s \<and>
   (\<forall>d. dumpfiles s' d =
      (if d \<in> (\<lambda>e. dbid (key e)) ` set xs \<and> d \<notin> set files
       then Some (case dumpfiles s d of None \<Rightarrow> [] | Some c \<Rightarrow> c) else dumpfiles s d)) \<and>
   warnings s' = warnings s \<and> had_ht_overflow s' = had_ht_overflow s \<and>
   local_access_entries s' = local_access_entries s \<and>
   relname_cache s' = relname_cache s \<and> stmt_counter s' = stmt_counter s"
proof (induction xs arbitrary: files s)
  case Nil
  then show ?case by simp
next
  case (Cons x xs)
  obtain f1 s1 where step: "add_file_dump_entry (dbid (key x)) (files, s) = (f1, s1)"
    by (cases "add_file_dump_entry (dbid (key x)) (files, s)")
  with Cons.prems have "fold (\<lambda>e. add_file_dump_entry (dbid (key e))) xs (f1, s1) = (files', s')"
    by simp
  from Cons.IH [OF this] step show ?case
    by (auto simp: add_file_dump_entry_def split: if_splits option.splits)
qed

lemma filter_selected_keys:
  "filter (\<lambda>e. key e \<notin> key ` set (filter (\<lambda>x. dbid (key x) \<in> D) tab)) tab =
   filter (\<lambda>e. dbid (key e) \<notin> D) tab"
  by (rule filter_cong [OF refl]) force

lemma relaccess_dump_to_files_filter:
  "\<exists>K. relaccesses (relaccess_dump_to_files ev b s) = filter (\<lambda>e. key e \<notin> K) (relaccesses s)"
proof (cases b)
  case True
  then show ?thesis
    using dump_scan_filter [of ev "[MyDatabaseId ev]" "relaccesses s"
        "s\<lparr>dumpfiles := (dumpfiles s)
              (MyDatabaseId ev :=
                 Some (case dumpfiles s (MyDatabaseId ev) of None \<Rightarrow> [] | Some c \<Rightarrow> c))\<rparr>"]
    by (simp add: relaccess_dump_to_files_def relaccess_dump_to_files_internal_def
        add_file_dump_entry_def)
next
  case False
  obtain fm s1 where
    fm: "fold (\<lambda>e. add_file_dump_entry (dbid (key e))) (relaccesses s) ([], s) = (fm, s1)"
    by (cases "fold (\<lambda>e. add_file_dump_entry (dbid (key e))) (relaccesses s) ([], s)")
  then have same: "relaccesses s1 = relaccesses s"
    using fold_add_file_dump_entry by blast
  show ?thesis
    using False fm same dump_scan_filter [of ev fm "relaccesses s" s1]
    by (simp add: relaccess_dump_to_files_def relaccess_dump_to_files_internal_def)
qed

lemma relaccess_stats_dump_written:
  assumes ok: "\<forall>e\<in>set (relaccesses s). dbid (key e) = MyDatabaseId ev \<longrightarrow>
                 fwrite_ok ev (MyDatabaseId ev) e"
  shows "relaccesses (relaccess_stats_dump ev s) =
           filter (\<lambda>e. dbid (key e) \<noteq> MyDatabaseId ev) (relaccesses s) \<and>
         dumpfiles (relaccess_stats_dump ev s) (MyDatabaseId ev) =
           Some ((case dumpfiles s (MyDatabaseId ev) of None \<Rightarrow> [] | Some c \<Rightarrow> c) @
                 filter (\<lambda>e. dbid (key e) = MyDatabaseId ev) (relaccesses s)) \<and>
         relaccess_stats_from_dump ev (relaccess_stats_dump ev s) =
           relaccess_stats_from_dump ev s @
           map row_of_entry (filter (\<lambda>e. dbid (key e) = MyDatabaseId ev) (relaccesses s)) \<and>
         (\<forall>e\<in>set (relaccesses s). dbid (key e) = MyDatabaseId ev \<longrightarrow>
            hash_find key (relaccesses (relaccess_stats_dump ev s)) (key e) = None)"
proof -
  let ?my = "MyDatabaseId ev"
  let ?s1 = "s\<lparr>dumpfiles := (dumpfiles s)
                (?my := Some (case dumpfiles s ?my of None \<Rightarrow> [] | Some c \<Rightarrow> c))\<rparr>"
  have run: "relaccess_stats_dump ev s = dump_scan ev [?my] (relaccesses s) ?s1"
    by (simp add: relaccess_stats_dump_def relaccess_dump_to_files_def
        relaccess_dump_to_files_internal_def add_file_dump_entry_def)
  have ok': "\<forall>x\<in>set (relaccesses s). dbid (key x) \<in> set [?my] \<longrightarrow> fwrite_ok ev (dbid (key x)) x"
    using ok by simp
  have tab: "relaccesses (relaccess_stats_dump ev s) =
               filter (\<lambda>e. dbid (key e) \<noteq> ?my) (relaccesses s)"
    using dump_scan_ok_relaccesses [OF ok', of ?s1] filter_selected_keys [of "{?my}" "relaccesses s"]
    by (simp add: run)
  have dumped: "dumpfiles (relaccess_stats_dump ev s) ?my =
           Some ((case dumpfiles s ?my of None \<Rightarrow> [] | Some c \<Rightarrow> c) @
                 filter (\<lambda>e. dbid (key e) = ?my) (relaccesses s))"
    using dump_scan_ok_dumpfiles [OF ok', of ?s1 ?my] by (simp add: run)
  have rows: "relaccess_stats_from_dump ev (relaccess_stats_dump ev s) =
           relaccess_stats_from_dump ev s @
           map row_of_entry (filter (\<lambda>e. dbid (key e) = ?my) (relaccesses s))"
    by (simp add: relaccess_stats_from_dump_def dumped split: option.splits)
  have gone: "\<forall>e\<in>set (relaccesses s). dbid (key e) = ?my \<longrightarrow>
            hash_find key (relaccesses (relaccess_stats_dump ev s)) (key e) = None"
    by (auto simp: tab hash_find_def find_None_iff)
  from tab dumped rows gone show ?thesis by blast
qed

section \<open>Facts about the merge of one element\<close>

lemma find_or_insert_found:
  "hash_find key tab k = Some e \<Longrightarrow> find_or_insert ev tab k = (tab, Some e, True)"
  by (simp add: find_or_insert_def hash_enter_null_def)

lemma find_or_insert_room:
  "hash_find key tab k = None \<Longrightarrow> length tab < relaccess_size ev \<Longrightarrow>
   find_or_insert ev tab k =
     (tab @ [(raw_entry ev)\<lparr>key := k\<rparr>], Some ((raw_entry ev)\<lparr>key := k\<rparr>), False)"
  by (simp add: find_or_insert_def hash_enter_null_def)

lemma find_or_insert_full:
  "hash_find key tab k = None \<Longrightarrow> relaccess_size ev \<le> length tab \<Longrightarrow>
   find_or_insert ev tab k = (tab, None, False)"
  by (simp add: find_or_insert_def hash_enter_null_def)

lemma key_update_entry [simp]: "key (update_entry src d) = key d"
  by (simp add: update_entry_def Let_def)

lemma key_clear_entry [simp]: "key (clear_entry d) = key d"
  by (simp add: clear_entry_def)

lemma update_entry_times:
  "last_read (update_entry src d) = max (last_read d) (l_last_read src) \<and>
   last_write (update_entry src d) = max (last_write d) (l_last_write src)"
  by (simp add: update_entry_def Let_def max_def)

lemma update_entry_guard:
  "last_read (update_entry src d) =
     (if last_read d < l_last_read src then l_last_read src else last_read d) \<and>
   last_reader_id (update_entry src d) =
     (if last_read d < l_last_read src then l_last_reader_id src else last_reader_id d) \<and>
   last_write (update_entry src d) =
     (if last_write d < l_last_write src then l_last_write src else last_write d) \<and>
   last_writer_id (update_entry src d) =
     (if last_write d < l_last_write src then l_last_writer_id src else last_writer_id d)"
  by (simp add: update_entry_def Let_def)

lemma update_entry_counters:
  "n_select (update_entry src d) = n_select d + (if (perms src AND ACL_SELECT) \<noteq> 0 then 1 else 0) \<and>
   n_insert (update_entry src d) = n_insert d + (if (perms src AND ACL_INSERT) \<noteq> 0 then 1 else 0) \<and>
   n_update (update_entry src d) = n_update d + (if (perms src AND ACL_UPDATE) \<noteq> 0 then 1 else 0) \<and>
   n_delete (update_entry src d) = n_delete d + (if (perms src AND ACL_DELETE) \<noteq> 0 then 1 else 0) \<and>
   n_truncate (update_entry src d) =
     n_truncate d + (if (perms src AND ACL_TRUNCATE) \<noteq> 0 then 1 else 0)"
  by (simp add: update_entry_def Let_def UPDATE_STAT_def)

lemma clear_entry_zero:
  "(update_entry src (clear_entry (raw\<lparr>key := k\<rparr>)))\<lparr>relname := nm\<rparr> =
   (update_entry src
      \<lparr>key = k, relname = [], last_reader_id = InvalidOid, last_writer_id = InvalidOid,
       last_read = 0, last_write = 0, n_select = 0, n_insert = 0, n_update = 0, n_delete = 0,
       n_truncate = 0\<rparr>)\<lparr>relname := nm\<rparr>"
  by (cases raw) (simp add: update_entry_def clear_entry_def Let_def)

lemma relaccesses_record_entry:
  "relaccesses (record_entry ev src d found s) =
     hash_store key (relaccesses s)
       ((update_entry src (if found then d else clear_entry d))
          \<lparr>relname := strlcpy (case hash_find c_relid (relname_cache s) (relid (key d)) of
                                 Some c \<Rightarrow> c_relname c | None \<Rightarrow> raw_relname ev) NAMEDATALEN\<rparr>)"
  by (simp add: record_entry_def Let_def)

lemma record_entry_other:
  "warnings (record_entry ev src d found s) = warnings s \<and>
   had_ht_overflow (record_entry ev src d found s) = had_ht_overflow s \<and>
   dumpfiles (record_entry ev src d found s) = dumpfiles s \<and>
   local_access_entries (record_entry ev src d found s) = local_access_entries s \<and>
   stmt_counter (record_entry ev src d found s) = stmt_counter s"
  by (simp add: record_entry_def Let_def)

lemma merge_entry_found:
  "hash_find key (relaccesses s) \<lparr>dbid = MyDatabaseId ev, relid = l_relid (l_key src)\<rparr> = Some e \<Longrightarrow>
   merge_entry ev src s = record_entry ev src e True s"
  by (simp add: merge_entry_def find_or_insert_found Let_def)

lemma merge_entry_room:
  "hash_find key (relaccesses s) \<lparr>dbid = MyDatabaseId ev, relid = l_relid (l_key src)\<rparr> = None \<Longrightarrow>
   length (relaccesses s) < relaccess_size ev \<Longrightarrow>
   merge_entry ev src s =
     record_entry ev src
       ((raw_entry ev)\<lparr>key := \<lparr>dbid = MyDatabaseId ev, relid = l_relid (l_key src)\<rparr>\<rparr>) False
       (s\<lparr>relaccesses := relaccesses s @
            [(raw_entry ev)\<lparr>key := \<lparr>dbid = MyDatabaseId ev, relid = l_relid (l_key src)\<rparr>\<rparr>]\<rparr>)"
  by (simp add: merge_entry_def find_or_insert_room Let_def)

lemma merge_entry_full_nodump:
  "hash_find key (relaccesses s) \<lparr>dbid = MyDatabaseId ev, relid = l_relid (l_key src)\<rparr> = None \<Longrightarrow>
   relaccess_size ev \<le> length (relaccesses s) \<Longrightarrow> \<not> dump_on_overflow ev \<Longrightarrow>
   merge_entry ev src s =
     (if had_ht_overflow s then s
      else s\<lparr>warnings := warnings s @ [WARNING_max_tables_exceeded], had_ht_overflow := True\<rparr>)"
  by (simp add: merge_entry_def find_or_insert_full Let_def)

lemma merge_entry_full_dump:
  "hash_find key (relaccesses s) \<lparr>dbid = MyDatabaseId ev, relid = l_relid (l_key src)\<rparr> = None \<Longrightarrow>
   relaccess_size ev \<le> length (relaccesses s) \<Longrightarrow> dump_on_overflow ev \<Longrightarrow>
   s1 = relaccess_dump_to_files ev False s \<Longrightarrow>
   merge_entry ev src s =
     (if length (relaccesses s1) < relaccess_size ev
      then record_entry ev src
             ((raw_entry ev)\<lparr>key := \<lparr>dbid = MyDatabaseId ev, relid = l_relid (l_key src)\<rparr>\<rparr>) False
             (s1\<lparr>relaccesses := relaccesses s1 @
                   [(raw_entry ev)\<lparr>key := \<lparr>dbid = MyDatabaseId ev, relid = l_relid (l_key src)\<rparr>\<rparr>],
                 had_ht_overflow := False\<rparr>)
      else if had_ht_overflow s1 then s1
      else s1\<lparr>warnings := warnings s1 @ [WARNING_unable_to_dump], had_ht_overflow := True\<rparr>)"
proof -
  assume absent: "hash_find key (relaccesses s)
                    \<lparr>dbid = MyDatabaseId ev, relid = l_relid (l_key src)\<rparr> = None"
    and full: "relaccess_size ev \<le> length (relaccesses s)"
    and dump: "dump_on_overflow ev"
    and s1: "s1 = relaccess_dump_to_files ev False s"
  let ?k = "\<lparr>dbid = MyDatabaseId ev, relid = l_relid (l_key src)\<rparr>"
  obtain K where K: "relaccesses s1 = filter (\<lambda>e. key e \<notin> K) (relaccesses s)"
    using relaccess_dump_to_files_filter [of ev False s] s1 by blast
  have absent1: "hash_find key (relaccesses s1) ?k = None"
    using absent by (simp add: K hash_find_filter_keys)
  show ?thesis
    using absent full dump absent1 s1 [symmetric]
    by (simp add: merge_entry_def find_or_insert_full Let_def hash_enter_null_def)
qed

lemma merge_cases:
  fixes s :: state and ev :: env
  obtains (found) e where "hash_find key (relaccesses s) k = Some e"
    | (room) "hash_find key (relaccesses s) k = None" "length (relaccesses s) < relaccess_size ev"
    | (nodump) "hash_find key (relaccesses s) k = None" "relaccess_size ev \<le> length (relaccesses s)"
        "\<not> dump_on_overflow ev"
    | (dump) "hash_find key (relaccesses s) k = None" "relaccess_size ev \<le> length (relaccesses s)"
        "dump_on_overflow ev"
proof (cases "hash_find key (relaccesses s) k")
  case None
  show ?thesis
  proof (cases "length (relaccesses s) < relaccess_size ev")
    case True
    with None show ?thesis by (rule room)
  next
    case False
    then have "relaccess_size ev \<le> length (relaccesses s)" by simp
    with None show ?thesis by (cases "dump_on_overflow ev") (auto intro: nodump dump)
  qed
next
  case (Some e)
  then show ?thesis by (rule found)
qed

lemma merge_entry_shape:
  fixes s :: state and ev :: env and src :: localAccessEntry
  defines "k \<equiv> \<lparr>dbid = MyDatabaseId ev, relid = l_relid (l_key src)\<rparr>"
  obtains (kept) K where
      "relaccesses (merge_entry ev src s) = filter (\<lambda>e. key e \<notin> K) (relaccesses s)"
      "hash_find key (relaccesses s) k = None"
    | (updated) e nm where "hash_find key (relaccesses s) k = Some e"
        "relaccesses (merge_entry ev src s) =
           hash_store key (relaccesses s) ((update_entry src e)\<lparr>relname := nm\<rparr>)"
    | (entered) K nm where "hash_find key (relaccesses s) k = None"
        "relaccesses (merge_entry ev src s) =
           filter (\<lambda>e. key e \<notin> K) (relaccesses s) @
           [(update_entry src (clear_entry ((raw_entry ev)\<lparr>key := k\<rparr>)))\<lparr>relname := nm\<rparr>]"
proof (cases rule: merge_cases [where s = s and k = k and ev = ev])
  case (found e)
  show ?thesis
    by (rule updated [OF found])
       (simp add: merge_entry_found [OF found [unfolded k_def]] relaccesses_record_entry)
next
  case room
  let ?new = "(raw_entry ev)\<lparr>key := k\<rparr>"
  let ?nm = "strlcpy (case hash_find c_relid (relname_cache s) (relid k) of
                        Some c \<Rightarrow> c_relname c | None \<Rightarrow> raw_relname ev) NAMEDATALEN"
  have "relaccesses (merge_entry ev src s) =
          hash_store key (relaccesses s @ [?new]) ((update_entry src (clear_entry ?new))\<lparr>relname := ?nm\<rparr>)"
    by (simp add: merge_entry_room [OF room [unfolded k_def]] relaccesses_record_entry k_def)
  also have "\<dots> = relaccesses s @ [(update_entry src (clear_entry ?new))\<lparr>relname := ?nm\<rparr>]"
    by (rule hash_store_append_new) (simp_all add: room)
  finally have "relaccesses (merge_entry ev src s) =
      filter (\<lambda>e. key e \<notin> {}) (relaccesses s) @
        [(update_entry src (clear_entry ?new))\<lparr>relname := ?nm\<rparr>]" by simp
  with room(1) show ?thesis by (rule entered)
next
  case nodump
  have "relaccesses (merge_entry ev src s) = filter (\<lambda>e. key e \<notin> {}) (relaccesses s)"
    by (simp add: merge_entry_full_nodump [OF nodump [unfolded k_def]])
  then show ?thesis using nodump(1) by (rule kept)
next
  case dump
  let ?s1 = "relaccess_dump_to_files ev False s"
  let ?new = "(raw_entry ev)\<lparr>key := k\<rparr>"
  let ?nm = "strlcpy (case hash_find c_relid (relname_cache ?s1) (relid k) of
                        Some c \<Rightarrow> c_relname c | None \<Rightarrow> raw_relname ev) NAMEDATALEN"
  obtain K where K: "relaccesses ?s1 = filter (\<lambda>e. key e \<notin> K) (relaccesses s)"
    using relaccess_dump_to_files_filter [of ev False s] by blast
  have absent1: "hash_find key (relaccesses ?s1) k = None"
    using dump(1) by (simp add: K hash_find_filter_keys)
  show ?thesis
  proof (cases "length (relaccesses ?s1) < relaccess_size ev")
    case True
    have "relaccesses (merge_entry ev src s) =
            hash_store key (relaccesses ?s1 @ [?new])
              ((update_entry src (clear_entry ?new))\<lparr>relname := ?nm\<rparr>)"
      using True
      by (simp add: merge_entry_full_dump [OF dump [unfolded k_def] refl] relaccesses_record_entry k_def)
    also have "\<dots> = relaccesses ?s1 @ [(update_entry src (clear_entry ?new))\<lparr>relname := ?nm\<rparr>]"
      by (rule hash_store_append_new) (simp_all add: absent1)
    finally have "relaccesses (merge_entry ev src s) =
        filter (\<lambda>e. key e \<notin> K) (relaccesses s) @
          [(update_entry src (clear_entry ?new))\<lparr>relname := ?nm\<rparr>]" by (simp add: K)
    with dump(1) show ?thesis by (rule entered)
  next
    case False
    then have "relaccesses (merge_entry ev src s) = filter (\<lambda>e. key e \<notin> K) (relaccesses s)"
      by (simp add: merge_entry_full_dump [OF dump [unfolded k_def] refl] K)
    then show ?thesis using dump(1) by (rule kept)
  qed
qed





lemma merge_entry_unset_read:
  assumes inv: "\<forall>d\<in>set (relaccesses st). 0 \<le> last_read d"
    and zero: "l_last_read src = 0"
    and after: "hash_find key (relaccesses (merge_entry ev src st))
                  \<lparr>dbid = MyDatabaseId ev, relid = l_relid (l_key src)\<rparr> = Some e'"
  shows "case hash_find key (relaccesses st) \<lparr>dbid = MyDatabaseId ev, relid = l_relid (l_key src)\<rparr> of
           Some e0 \<Rightarrow> last_read e' = last_read e0 \<and> last_reader_id e' = last_reader_id e0
         | None \<Rightarrow> last_read e' = 0 \<and> last_reader_id e' = InvalidOid"
proof (cases rule: merge_entry_shape [where s = st and ev = ev and src = src])
  case (kept K)
  with after show ?thesis by (simp add: hash_find_filter_keys split: if_splits)
next
  case (updated e0 nm)
  from hash_find_Some_key [OF updated(1)] inv have "key e0 = \<lparr>dbid = MyDatabaseId ev, relid = l_relid (l_key src)\<rparr>"
    and "0 \<le> last_read e0" by auto
  with after updated zero show ?thesis
    by (auto simp: hash_find_store update_entry_guard)
next
  case (entered K nm)
  with after zero show ?thesis
    by (auto simp: hash_find_append hash_find_filter_keys update_entry_guard clear_entry_def
        split: if_splits option.splits)
qed

lemma merge_entry_unset_write:
  assumes inv: "\<forall>d\<in>set (relaccesses st). 0 \<le> last_write d"
    and zero: "l_last_write src = 0"
    and after: "hash_find key (relaccesses (merge_entry ev src st))
                  \<lparr>dbid = MyDatabaseId ev, relid = l_relid (l_key src)\<rparr> = Some e'"
  shows "case hash_find key (relaccesses st) \<lparr>dbid = MyDatabaseId ev, relid = l_relid (l_key src)\<rparr> of
           Some e0 \<Rightarrow> last_write e' = last_write e0 \<and> last_writer_id e' = last_writer_id e0
         | None \<Rightarrow> last_write e' = 0 \<and> last_writer_id e' = InvalidOid"
proof (cases rule: merge_entry_shape [where s = st and ev = ev and src = src])
  case (kept K)
  with after show ?thesis by (simp add: hash_find_filter_keys split: if_splits)
next
  case (updated e0 nm)
  from hash_find_Some_key [OF updated(1)] inv have "key e0 = \<lparr>dbid = MyDatabaseId ev, relid = l_relid (l_key src)\<rparr>"
    and "0 \<le> last_write e0" by auto
  with after updated zero show ?thesis
    by (auto simp: hash_find_store update_entry_guard)
next
  case (entered K nm)
  with after zero show ?thesis
    by (auto simp: hash_find_append hash_find_filter_keys update_entry_guard clear_entry_def
        split: if_splits option.splits)
qed

section \<open>Facts about the recording of accesses\<close>

lemma memorize_absent:
  "hash_find l_key (local_access_entries s) \<lparr>l_relid = rel, stmt_cnt = stmt_counter s\<rparr> = None \<Longrightarrow>
   hash_find l_key (local_access_entries (memorize_local_access_entry raw uid curts rel p s))
     \<lparr>l_relid = rel, stmt_cnt = stmt_counter s\<rparr> =
     Some (stamp_access uid curts p
            (raw\<lparr>l_key := \<lparr>l_relid = rel, stmt_cnt = stmt_counter s\<rparr>,
                 l_last_read := 0, l_last_write := 0, perms := p\<rparr>))"
  by (simp add: memorize_local_access_entry_def Let_def hash_find_append stamp_access_def)

lemma memorize_present:
  "hash_find l_key (local_access_entries s) \<lparr>l_relid = rel, stmt_cnt = stmt_counter s\<rparr> = Some e \<Longrightarrow>
   hash_find l_key (local_access_entries (memorize_local_access_entry raw uid curts rel p s))
     \<lparr>l_relid = rel, stmt_cnt = stmt_counter s\<rparr> =
     Some (stamp_access uid curts p (e\<lparr>perms := perms e OR p\<rparr>))"
  using hash_find_Some_key [of l_key "local_access_entries s" _ e]
  by (simp add: memorize_local_access_entry_def Let_def hash_find_store stamp_access_def)

lemma memorize_stmt_counter [simp]:
  "stmt_counter (memorize_local_access_entry raw uid curts rel p s) = stmt_counter s"
  by (simp add: memorize_local_access_entry_def Let_def split: option.splits)

lemma record_accesses_present:
  "hash_find l_key (local_access_entries s) \<lparr>l_relid = rel, stmt_cnt = stmt_counter s\<rparr> = Some e \<Longrightarrow>
   \<exists>e'. hash_find l_key (local_access_entries (record_accesses raw rel evs s))
           \<lparr>l_relid = rel, stmt_cnt = stmt_counter s\<rparr> = Some e' \<and>
        perms e' = perms e OR foldr (OR) (map fst evs) 0 \<and>
        l_last_read e' = (case filter (\<lambda>a. is_read (fst a)) evs of
                            [] \<Rightarrow> l_last_read e | x # xs \<Rightarrow> snd (snd (last (x # xs)))) \<and>
        l_last_write e' = (case filter (\<lambda>a. is_write (fst a)) evs of
                            [] \<Rightarrow> l_last_write e | x # xs \<Rightarrow> snd (snd (last (x # xs)))) \<and>
        l_last_reader_id e' = (case filter (\<lambda>a. is_read (fst a)) evs of
                            [] \<Rightarrow> l_last_reader_id e | x # xs \<Rightarrow> fst (snd (last (x # xs)))) \<and>
        l_last_writer_id e' = (case filter (\<lambda>a. is_write (fst a)) evs of
                            [] \<Rightarrow> l_last_writer_id e | x # xs \<Rightarrow> fst (snd (last (x # xs))))"
proof (induction evs arbitrary: s e)
  case Nil
  then show ?case by simp
next
  case (Cons a evs)
  obtain p u t where a: "a = (p, u, t)" by (cases a)
  let ?s1 = "memorize_local_access_entry raw u t rel p s"
  let ?e1 = "stamp_access u t p (e\<lparr>perms := perms e OR p\<rparr>)"
  have e1: "hash_find l_key (local_access_entries ?s1)
              \<lparr>l_relid = rel, stmt_cnt = stmt_counter ?s1\<rparr> = Some ?e1"
    using memorize_present [OF Cons.prems] by simp
  from Cons.IH [OF e1] obtain e' where
    e': "hash_find l_key (local_access_entries (record_accesses raw rel evs ?s1))
           \<lparr>l_relid = rel, stmt_cnt = stmt_counter ?s1\<rparr> = Some e'"
      "perms e' = perms ?e1 OR foldr (OR) (map fst evs) 0"
      "l_last_read e' = (case filter (\<lambda>a. is_read (fst a)) evs of
                            [] \<Rightarrow> l_last_read ?e1 | x # xs \<Rightarrow> snd (snd (last (x # xs))))"
      "l_last_write e' = (case filter (\<lambda>a. is_write (fst a)) evs of
                            [] \<Rightarrow> l_last_write ?e1 | x # xs \<Rightarrow> snd (snd (last (x # xs))))"
      "l_last_reader_id e' = (case filter (\<lambda>a. is_read (fst a)) evs of
                            [] \<Rightarrow> l_last_reader_id ?e1 | x # xs \<Rightarrow> fst (snd (last (x # xs))))"
      "l_last_writer_id e' = (case filter (\<lambda>a. is_write (fst a)) evs of
                            [] \<Rightarrow> l_last_writer_id ?e1 | x # xs \<Rightarrow> fst (snd (last (x # xs))))"
    by blast
  have "perms e' = perms e OR foldr (OR) (map fst (a # evs)) 0"
    using e'(2) by (simp add: a stamp_access_def Let_def or.assoc)
  moreover have "l_last_read e' = (case filter (\<lambda>a. is_read (fst a)) (a # evs) of
                            [] \<Rightarrow> l_last_read e | x # xs \<Rightarrow> snd (snd (last (x # xs))))"
    using e'(3) by (simp add: a stamp_access_def Let_def split: list.splits)
  moreover have "l_last_write e' = (case filter (\<lambda>a. is_write (fst a)) (a # evs) of
                            [] \<Rightarrow> l_last_write e | x # xs \<Rightarrow> snd (snd (last (x # xs))))"
    using e'(4) by (simp add: a stamp_access_def Let_def split: list.splits)
  moreover have "l_last_reader_id e' = (case filter (\<lambda>a. is_read (fst a)) (a # evs) of
                            [] \<Rightarrow> l_last_reader_id e | x # xs \<Rightarrow> fst (snd (last (x # xs))))"
    using e'(5) by (simp add: a stamp_access_def Let_def split: list.splits)
  moreover have "l_last_writer_id e' = (case filter (\<lambda>a. is_write (fst a)) (a # evs) of
                            [] \<Rightarrow> l_last_writer_id e | x # xs \<Rightarrow> fst (snd (last (x # xs))))"
    using e'(6) by (simp add: a stamp_access_def Let_def split: list.splits)
  ultimately show ?case using e'(1) by (simp add: a)
qed

lemma record_accesses_absent:
  assumes absent: "hash_find l_key (local_access_entries s)
                     \<lparr>l_relid = rel, stmt_cnt = stmt_counter s\<rparr> = None"
    and nonempty: "evs \<noteq> []"
  shows "\<exists>e'. hash_find l_key (local_access_entries (record_accesses raw rel evs s))
           \<lparr>l_relid = rel, stmt_cnt = stmt_counter s\<rparr> = Some e' \<and>
        perms e' = foldr (OR) (map fst evs) 0 \<and>
        l_last_read e' = (case filter (\<lambda>a. is_read (fst a)) evs of
                            [] \<Rightarrow> 0 | x # xs \<Rightarrow> snd (snd (last (x # xs)))) \<and>
        l_last_write e' = (case filter (\<lambda>a. is_write (fst a)) evs of
                            [] \<Rightarrow> 0 | x # xs \<Rightarrow> snd (snd (last (x # xs)))) \<and>
        l_last_reader_id e' = (case filter (\<lambda>a. is_read (fst a)) evs of
                            [] \<Rightarrow> l_last_reader_id raw | x # xs \<Rightarrow> fst (snd (last (x # xs)))) \<and>
        l_last_writer_id e' = (case filter (\<lambda>a. is_write (fst a)) evs of
                            [] \<Rightarrow> l_last_writer_id raw | x # xs \<Rightarrow> fst (snd (last (x # xs))))"
proof -
  from nonempty obtain p u t rest where evs: "evs = (p, u, t) # rest"
    by (cases evs) auto
  let ?k = "\<lparr>l_relid = rel, stmt_cnt = stmt_counter s\<rparr>"
  let ?s1 = "memorize_local_access_entry raw u t rel p s"
  let ?e1 = "stamp_access u t p (raw\<lparr>l_key := ?k, l_last_read := 0, l_last_write := 0, perms := p\<rparr>)"
  have e1: "hash_find l_key (local_access_entries ?s1)
              \<lparr>l_relid = rel, stmt_cnt = stmt_counter ?s1\<rparr> = Some ?e1"
    using memorize_absent [OF absent] by simp
  from record_accesses_present [OF e1, of raw rest] obtain e' where
    e': "hash_find l_key (local_access_entries (record_accesses raw rel rest ?s1))
           \<lparr>l_relid = rel, stmt_cnt = stmt_counter ?s1\<rparr> = Some e'"
      "perms e' = perms ?e1 OR foldr (OR) (map fst rest) 0"
      "l_last_read e' = (case filter (\<lambda>a. is_read (fst a)) rest of
                            [] \<Rightarrow> l_last_read ?e1 | x # xs \<Rightarrow> snd (snd (last (x # xs))))"
      "l_last_write e' = (case filter (\<lambda>a. is_write (fst a)) rest of
                            [] \<Rightarrow> l_last_write ?e1 | x # xs \<Rightarrow> snd (snd (last (x # xs))))"
      "l_last_reader_id e' = (case filter (\<lambda>a. is_read (fst a)) rest of
                            [] \<Rightarrow> l_last_reader_id ?e1 | x # xs \<Rightarrow> fst (snd (last (x # xs))))"
      "l_last_writer_id e' = (case filter (\<lambda>a. is_write (fst a)) rest of
                            [] \<Rightarrow> l_last_writer_id ?e1 | x # xs \<Rightarrow> fst (snd (last (x # xs))))"
    by blast
  have "perms e' = foldr (OR) (map fst evs) 0"
    using e'(2) by (simp add: evs stamp_access_def Let_def)
  moreover have "l_last_read e' = (case filter (\<lambda>a. is_read (fst a)) evs of
                            [] \<Rightarrow> 0 | x # xs \<Rightarrow> snd (snd (last (x # xs))))"
    using e'(3) by (simp add: evs stamp_access_def Let_def split: list.splits)
  moreover have "l_last_write e' = (case filter (\<lambda>a. is_write (fst a)) evs of
                            [] \<Rightarrow> 0 | x # xs \<Rightarrow> snd (snd (last (x # xs))))"
    using e'(4) by (simp add: evs stamp_access_def Let_def split: list.splits)
  moreover have "l_last_reader_id e' = (case filter (\<lambda>a. is_read (fst a)) evs of
                            [] \<Rightarrow> l_last_reader_id raw | x # xs \<Rightarrow> fst (snd (last (x # xs))))"
    using e'(5) by (simp add: evs stamp_access_def Let_def split: list.splits)
  moreover have "l_last_writer_id e' = (case filter (\<lambda>a. is_write (fst a)) evs of
                            [] \<Rightarrow> l_last_writer_id raw | x # xs \<Rightarrow> fst (snd (last (x # xs))))"
    using e'(6) by (simp add: evs stamp_access_def Let_def split: list.splits)
  ultimately show ?thesis using e'(1) by (simp add: evs)
qed

lemma sorted_map_last_Max:
  "sorted (map f xs) \<Longrightarrow> xs \<noteq> [] \<Longrightarrow> f (last xs) = Max (f ` set xs)"
proof (induction xs)
  case Nil
  then show ?case by simp
next
  case (Cons x xs)
  show ?case
  proof (cases "xs = []")
    case True
    then show ?thesis by simp
  next
    case False
    with Cons have ih: "f (last xs) = Max (f ` set xs)" by simp
    from Cons.prems False have "f x \<le> f (last xs)" by simp
    with ih False show ?thesis by (simp add: max_def)
  qed
qed

section \<open>Evaluation on concrete inputs\<close>

lemmas acl_defs = ACL_SELECT_def ACL_INSERT_def ACL_UPDATE_def ACL_DELETE_def ACL_TRUNCATE_def
  is_read_def is_write_def InvalidOid_def

lemmas table_defs = hash_find_def hash_remove_def hash_store_def hash_enter_null_def


lemmas commit_defs = relaccess_xact_callback_def merge_entry_def find_or_insert_def
  record_entry_def update_entry_def clear_entry_def UPDATE_STAT_def strlcpy_def NAMEDATALEN_def
  Let_def

lemmas stage_defs = memorize_local_access_entry_def stamp_access_def update_relname_cache_def

lemmas input_defs = env0_def state0_def entry0_def entry1_def entry2_def stale_entry_def
  stale_local_def staged0_def

lemmas ingest_defs = relaccess_stats_update_def relaccess_stats_update_internal_def
  relaccess_upsert_from_file_def

lemma length_store128: "length store128 = 128"
  by (simp add: store128_def)

lemma dbid_store128: "e \<in> set store128 \<Longrightarrow> dbid (key e) = 2"
  by (auto simp: store128_def)

lemma hash_find_store128: "hash_find key store128 \<lparr>dbid = 1, relid = r\<rparr> = None"
proof -
  have "\<lparr>dbid = 1, relid = r\<rparr> \<notin> key ` set store128"
  proof
    assume "\<lparr>dbid = 1, relid = r\<rparr> \<in> key ` set store128"
    then obtain x where x: "x \<in> set store128" "key x = \<lparr>dbid = 1, relid = r\<rparr>"
      by auto
    from dbid_store128 [OF x(1)] x(2) show False by simp
  qed
  then show ?thesis by (simp add: hash_find_None_iff)
qed

section \<open>Invariants of the shared table\<close>

text \<open>
  Keys occur once in the table, and no stored time is negative: a new element starts
  at 0 and a time is only replaced by a greater one. Both hold of the empty table and
  are kept by a merge and by a dump.
\<close>

lemma merge_entry_times_nonneg:
  assumes inv: "\<forall>d\<in>set (relaccesses s). 0 \<le> last_read d \<and> 0 \<le> last_write d"
  shows "\<forall>d\<in>set (relaccesses (merge_entry ev src s)). 0 \<le> last_read d \<and> 0 \<le> last_write d"
proof (cases rule: merge_entry_shape [where s = s and ev = ev and src = src])
  case (kept K)
  with inv show ?thesis by simp
next
  case (updated e nm)
  from hash_find_Some_key [OF updated(1)] inv
  have "0 \<le> last_read e \<and> 0 \<le> last_write e" by simp
  then have "0 \<le> last_read ((update_entry src e)\<lparr>relname := nm\<rparr>) \<and>
             0 \<le> last_write ((update_entry src e)\<lparr>relname := nm\<rparr>)"
    by (simp add: update_entry_times le_max_iff_disj)
  with inv set_hash_store [of key "relaccesses s" "(update_entry src e)\<lparr>relname := nm\<rparr>"]
  show ?thesis unfolding updated(2) by blast
next
  case (entered K nm)
  with inv show ?thesis by (simp add: update_entry_times clear_entry_def le_max_iff_disj)
qed

lemma merge_entry_distinct:
  assumes dist: "distinct (map key (relaccesses s))"
  shows "distinct (map key (relaccesses (merge_entry ev src s)))"
proof (cases rule: merge_entry_shape [where s = s and ev = ev and src = src])
  case (kept K)
  with dist show ?thesis by (simp add: distinct_map_filter)
next
  case (updated e nm)
  with dist show ?thesis by (simp add: map_key_hash_store)
next
  case (entered K nm)
  from entered(1) have "\<lparr>dbid = MyDatabaseId ev, relid = l_relid (l_key src)\<rparr> \<notin>
                          key ` set (relaccesses s)"
    by (simp add: hash_find_None_iff)
  with dist entered(2) show ?thesis by (auto simp: distinct_map_filter)
qed

lemma relaccess_dump_to_files_invariants:
  assumes "distinct (map key (relaccesses s))"
    and "\<forall>d\<in>set (relaccesses s). 0 \<le> last_read d \<and> 0 \<le> last_write d"
  shows "distinct (map key (relaccesses (relaccess_dump_to_files ev b s))) \<and>
         (\<forall>d\<in>set (relaccesses (relaccess_dump_to_files ev b s)).
            0 \<le> last_read d \<and> 0 \<le> last_write d)"
proof -
  obtain K where "relaccesses (relaccess_dump_to_files ev b s) =
                    filter (\<lambda>e. key e \<notin> K) (relaccesses s)"
    using relaccess_dump_to_files_filter [of ev b s] by blast
  with assms show ?thesis by (simp add: distinct_map_filter)
qed

lemma fold_merge_entry_invariants:
  "distinct (map key (relaccesses s)) \<Longrightarrow>
   \<forall>d\<in>set (relaccesses s). 0 \<le> last_read d \<and> 0 \<le> last_write d \<Longrightarrow>
   distinct (map key (relaccesses (fold (merge_entry ev) srcs s))) \<and>
   (\<forall>d\<in>set (relaccesses (fold (merge_entry ev) srcs s)). 0 \<le> last_read d \<and> 0 \<le> last_write d)"
proof (induction srcs arbitrary: s)
  case Nil
  then show ?case by simp
next
  case (Cons src srcs)
  from Cons.prems have "distinct (map key (relaccesses (merge_entry ev src s)))"
    and "\<forall>d\<in>set (relaccesses (merge_entry ev src s)). 0 \<le> last_read d \<and> 0 \<le> last_write d"
    using merge_entry_distinct [of s ev src] merge_entry_times_nonneg [of s ev src] by blast+
  from Cons.IH [OF this] show ?case by simp
qed

lemma relaccess_xact_callback_invariants:
  assumes "distinct (map key (relaccesses s))"
    and "\<forall>d\<in>set (relaccesses s). 0 \<le> last_read d \<and> 0 \<le> last_write d"
  shows "distinct (map key (relaccesses (relaccess_xact_callback ev event s))) \<and>
         (\<forall>d\<in>set (relaccesses (relaccess_xact_callback ev event s)).
            0 \<le> last_read d \<and> 0 \<le> last_write d)"
  using assms fold_merge_entry_invariants [OF assms, of ev "local_access_entries s"]
  by (simp add: relaccess_xact_callback_def)

section \<open>The claims\<close>


text \<open>
  When the ingestion query raises an error of its own, control leaves
  \<open>relaccess_upsert_from_file\<close> before the \<open>unlink\<close>, and the file stays as the dump left it.
\<close>

lemma relaccess_stats_update_query_error:
  "0 \<le> SPI_connect_result ev \<Longrightarrow> SPI_execute_result ev = SPI_raises \<Longrightarrow>
   relaccess_stats_update ev s = (Some SPI_query_error, relaccess_dump_to_files ev True s)"
  by (simp add: ingest_defs)

text \<open>
  In general: a negative code from \<open>SPI_execute\<close> ends the call with an error and
  without the dump file of the session's database.
\<close>

lemma relaccess_stats_update_negative_code:
  "0 \<le> SPI_connect_result ev \<Longrightarrow> SPI_execute_result ev = SPI_returns ret \<Longrightarrow> ret < 0 \<Longrightarrow>
   fst (relaccess_stats_update ev s) = Some (SPI_execute_failure ret) \<and>
   dumpfiles (snd (relaccess_stats_update ev s)) (MyDatabaseId ev) = None"
  by (simp add: ingest_defs Let_def)




text \<open>
  Claim C3 (the flag that suppresses the overflow warning). \<open>had_ht_overflow\<close> is a static
  variable of one backend and the table is shared. The code clears the flag when an
  insert succeeds after a dump (line 421) and when a dump or a drop removes an element,
  but not when \<open>HASH_ENTER_NULL\<close> succeeds directly (lines 401-403). Backend 1 drops an
  update because the table is full and sets its flag; backend 2 dumps the table; the
  next commit of backend 1 inserts a new key, and the flag of backend 1 is still set.
\<close>

theorem C3_flag_still_set_after_insert:
  "relaccesses backend1_overflowed = store128 \<and>
   had_ht_overflow backend1_overflowed \<and>
   warnings backend1_overflowed = [WARNING_max_tables_exceeded] \<and>
   relaccesses backend2_dumped = [] \<and>
   map key (relaccesses backend1_inserted) = [\<lparr>dbid = 1, relid = 8\<rparr>] \<and>
   had_ht_overflow backend1_inserted"
proof -
  let ?src = "\<lparr>l_key = \<lparr>l_relid = 7, stmt_cnt = 0\<rparr>, l_last_reader_id = 77,
              l_last_writer_id = 10, l_last_read = 0, l_last_write = 1000, perms = ACL_INSERT\<rparr>"
  let ?staged = "\<lparr>relaccesses = store128, dumpfiles = (\<lambda>d. None),
                 local_access_entries = [?src],
                 relname_cache = [\<lparr>c_relid = 7, c_relname = ''t''\<rparr>], stmt_counter = 0,
                 had_ht_overflow = False, warnings = []\<rparr>"
  have staged: "update_relname_cache env0 7 None
                  (memorize_local_access_entry stale_local 10 1000 7 ACL_INSERT
                     (state0\<lparr>relaccesses := store128\<rparr>)) = ?staged"
    by (simp add: stage_defs table_defs acl_defs input_defs strlcpy_def NAMEDATALEN_def)
  have merged: "merge_entry env0 ?src ?staged =
                  ?staged\<lparr>warnings := [WARNING_max_tables_exceeded], had_ht_overflow := True\<rparr>"
    using merge_entry_full_nodump [of ?staged env0 ?src]
    by (simp add: hash_find_store128 length_store128 env0_def)
  have b1: "backend1_overflowed =
              \<lparr>relaccesses = store128, dumpfiles = (\<lambda>d. None), local_access_entries = [],
               relname_cache = [], stmt_counter = 0, had_ht_overflow = True,
               warnings = [WARNING_max_tables_exceeded]\<rparr>"
    unfolding backend1_overflowed_def staged
    by (simp add: relaccess_xact_callback_def merged) (simp add: env0_def)
  have b2: "relaccesses backend2_dumped = []"
  proof -
    let ?ev2 = "env0\<lparr>MyDatabaseId := 2\<rparr>"
    let ?s2 = "state0\<lparr>relaccesses := relaccesses backend1_overflowed,
                      dumpfiles := dumpfiles backend1_overflowed\<rparr>"
    have ok: "\<forall>e\<in>set (relaccesses ?s2). dbid (key e) = MyDatabaseId ?ev2 \<longrightarrow>
                fwrite_ok ?ev2 (MyDatabaseId ?ev2) e"
      by (simp add: env0_def)
    from relaccess_stats_dump_written [OF ok]
    have "relaccesses backend2_dumped =
            filter (\<lambda>e. dbid (key e) \<noteq> MyDatabaseId ?ev2) (relaccesses ?s2)"
      unfolding backend2_dumped_def by blast
    then show ?thesis
      by (simp add: b1 env0_def filter_empty_conv dbid_store128)
  qed
  have b3: "map key (relaccesses backend1_inserted) = [\<lparr>dbid = 1, relid = 8\<rparr>] \<and>
            had_ht_overflow backend1_inserted"
    unfolding backend1_inserted_def b1 b2
    by (simp add: stage_defs commit_defs table_defs acl_defs input_defs)
  have a1: "relaccesses backend1_overflowed = store128"
    and a2: "had_ht_overflow backend1_overflowed"
    and a3: "warnings backend1_overflowed = [WARNING_max_tables_exceeded]"
    by (simp_all add: b1)
  from a1 a2 a3 b2 b3 show ?thesis by blast
qed

text \<open>
  In general: when the key is absent and the table has room, the merge enters the key
  and leaves \<open>had_ht_overflow\<close> and the warnings as they were.
\<close>

lemma merge_entry_room_keeps_flag:
  assumes "hash_find key (relaccesses s) \<lparr>dbid = MyDatabaseId ev, relid = l_relid (l_key src)\<rparr> = None"
    and "length (relaccesses s) < relaccess_size ev"
  shows "had_ht_overflow (merge_entry ev src s) = had_ht_overflow s \<and>
         warnings (merge_entry ev src s) = warnings s \<and>
         hash_find key (relaccesses (merge_entry ev src s))
           \<lparr>dbid = MyDatabaseId ev, relid = l_relid (l_key src)\<rparr> \<noteq> None"
  by (simp add: merge_entry_room [OF assms] record_entry_other relaccesses_record_entry
      hash_find_store hash_find_append assms(1))

text \<open>
  Claim C4 (find or insert in the shared table, lines 393-434). An existing key is
  returned as it is, with \<open>found\<close> set. An absent key with fewer elements than
  \<open>relaccess_size\<close> gets a new element at the end of the table, returned with \<open>found\<close>
  unset, and the commit clears its ids, times and counters before it counts the
  access, whatever the free element held. An absent key with the table at
  \<open>relaccess_size\<close> elements gives \<open>NULL\<close> and the table unchanged. A commit of an
  element whose key is in a full table adds one to each counter whose bit is in
  \<open>perms\<close>, keeps the number of elements, raises no warning and leaves
  \<open>had_ht_overflow\<close> as it was.
\<close>

theorem C4_find_or_insert:
  fixes ev :: env and s :: state and src :: localAccessEntry
  defines "k \<equiv> \<lparr>dbid = MyDatabaseId ev, relid = l_relid (l_key src)\<rparr>"
  shows
  "(hash_find key tab k' = Some e \<longrightarrow> find_or_insert ev tab k' = (tab, Some e, True)) \<and>
   (hash_find key tab k' = None \<and> length tab < relaccess_size ev \<longrightarrow>
      find_or_insert ev tab k' =
        (tab @ [(raw_entry ev)\<lparr>key := k'\<rparr>], Some ((raw_entry ev)\<lparr>key := k'\<rparr>), False)) \<and>
   (hash_find key tab k' = None \<and> length tab = relaccess_size ev \<longrightarrow>
      find_or_insert ev tab k' = (tab, None, False)) \<and>
   (hash_find key (relaccesses s) k = None \<and> length (relaccesses s) < relaccess_size ev \<longrightarrow>
      (\<exists>nm. relaccesses (merge_entry ev src s) =
         relaccesses s @
         [(update_entry src
             \<lparr>key = k, relname = [], last_reader_id = InvalidOid, last_writer_id = InvalidOid,
              last_read = 0, last_write = 0, n_select = 0, n_insert = 0, n_update = 0,
              n_delete = 0, n_truncate = 0\<rparr>)\<lparr>relname := nm\<rparr>])) \<and>
   (hash_find key (relaccesses s) k = Some e \<and> length (relaccesses s) = relaccess_size ev \<longrightarrow>
      (\<exists>e'. hash_find key (relaccesses (merge_entry ev src s)) k = Some e' \<and>
            n_select e' = n_select e + (if (perms src AND ACL_SELECT) \<noteq> 0 then 1 else 0) \<and>
            n_insert e' = n_insert e + (if (perms src AND ACL_INSERT) \<noteq> 0 then 1 else 0) \<and>
            n_update e' = n_update e + (if (perms src AND ACL_UPDATE) \<noteq> 0 then 1 else 0) \<and>
            n_delete e' = n_delete e + (if (perms src AND ACL_DELETE) \<noteq> 0 then 1 else 0) \<and>
            n_truncate e' = n_truncate e + (if (perms src AND ACL_TRUNCATE) \<noteq> 0 then 1 else 0)) \<and>
      length (relaccesses (merge_entry ev src s)) = length (relaccesses s) \<and>
      warnings (merge_entry ev src s) = warnings s \<and>
      had_ht_overflow (merge_entry ev src s) = had_ht_overflow s)"
proof -
  have new: "\<exists>nm. relaccesses (merge_entry ev src s) =
         relaccesses s @
         [(update_entry src
             \<lparr>key = k, relname = [], last_reader_id = InvalidOid, last_writer_id = InvalidOid,
              last_read = 0, last_write = 0, n_select = 0, n_insert = 0, n_update = 0,
              n_delete = 0, n_truncate = 0\<rparr>)\<lparr>relname := nm\<rparr>]"
    if absent: "hash_find key (relaccesses s) k = None"
      and room: "length (relaccesses s) < relaccess_size ev"
  proof -
    let ?new = "(raw_entry ev)\<lparr>key := k\<rparr>"
    let ?nm = "strlcpy (case hash_find c_relid (relname_cache s) (relid k) of
                          Some c \<Rightarrow> c_relname c | None \<Rightarrow> raw_relname ev) NAMEDATALEN"
    have "relaccesses (merge_entry ev src s) =
            hash_store key (relaccesses s @ [?new])
              ((update_entry src (clear_entry ?new))\<lparr>relname := ?nm\<rparr>)"
      by (simp add: merge_entry_room [OF absent [unfolded k_def] room] relaccesses_record_entry k_def)
    also have "\<dots> = relaccesses s @ [(update_entry src (clear_entry ?new))\<lparr>relname := ?nm\<rparr>]"
      by (rule hash_store_append_new) (simp_all add: absent)
    finally show ?thesis by (simp only: clear_entry_zero) blast
  qed
  have old: "(\<exists>e'. hash_find key (relaccesses (merge_entry ev src s)) k = Some e' \<and>
            n_select e' = n_select e + (if (perms src AND ACL_SELECT) \<noteq> 0 then 1 else 0) \<and>
            n_insert e' = n_insert e + (if (perms src AND ACL_INSERT) \<noteq> 0 then 1 else 0) \<and>
            n_update e' = n_update e + (if (perms src AND ACL_UPDATE) \<noteq> 0 then 1 else 0) \<and>
            n_delete e' = n_delete e + (if (perms src AND ACL_DELETE) \<noteq> 0 then 1 else 0) \<and>
            n_truncate e' = n_truncate e + (if (perms src AND ACL_TRUNCATE) \<noteq> 0 then 1 else 0)) \<and>
      length (relaccesses (merge_entry ev src s)) = length (relaccesses s) \<and>
      warnings (merge_entry ev src s) = warnings s \<and>
      had_ht_overflow (merge_entry ev src s) = had_ht_overflow s"
    if present: "hash_find key (relaccesses s) k = Some e"
  proof -
    have ke: "key e = k" using hash_find_Some_key [OF present] by simp
    have run: "merge_entry ev src s = record_entry ev src e True s"
      by (rule merge_entry_found [OF present [unfolded k_def]])
    show ?thesis
      unfolding run
      using present ke update_entry_counters [of src e]
      by (simp add: relaccesses_record_entry hash_find_store length_hash_store record_entry_other)
  qed
  show ?thesis
    using new old find_or_insert_found [of tab k' e ev] find_or_insert_room [of tab k' ev]
      find_or_insert_full [of tab k' ev]
    by simp
qed

theorem C4_find_or_insert_witness:
  "find_or_insert (env0\<lparr>MyDatabaseId := 2\<rparr>) store128 \<lparr>dbid = 2, relid = 16384\<rparr> =
     (store128, Some (entry2\<lparr>key := \<lparr>dbid = 2, relid = 16384\<rparr>\<rparr>), True) \<and>
   find_or_insert env0 [entry1] \<lparr>dbid = 1, relid = 7\<rparr> =
     ([entry1, stale_entry\<lparr>key := \<lparr>dbid = 1, relid = 7\<rparr>\<rparr>],
      Some (stale_entry\<lparr>key := \<lparr>dbid = 1, relid = 7\<rparr>\<rparr>), False) \<and>
   find_or_insert env0 store128 \<lparr>dbid = 1, relid = 7\<rparr> = (store128, None, False) \<and>
   relaccesses (merge_entry env0 staged0 (state0\<lparr>relaccesses := [entry1]\<rparr>)) =
     [entry1,
      \<lparr>key = \<lparr>dbid = 1, relid = 7\<rparr>, relname = ''old'', last_reader_id = 12,
       last_writer_id = 0, last_read = 500, last_write = 0, n_select = 1, n_insert = 0,
       n_update = 0, n_delete = 0, n_truncate = 0\<rparr>] \<and>
   length (relaccesses (merge_entry (env0\<lparr>MyDatabaseId := 2\<rparr>)
      (staged0\<lparr>l_key := \<lparr>l_relid = 16384, stmt_cnt = 0\<rparr>\<rparr>)
      (state0\<lparr>relaccesses := store128\<rparr>))) = 128 \<and>
   warnings (merge_entry (env0\<lparr>MyDatabaseId := 2\<rparr>)
      (staged0\<lparr>l_key := \<lparr>l_relid = 16384, stmt_cnt = 0\<rparr>\<rparr>)
      (state0\<lparr>relaccesses := store128\<rparr>)) = [] \<and>
   (\<exists>e'. hash_find key (relaccesses (merge_entry (env0\<lparr>MyDatabaseId := 2\<rparr>)
             (staged0\<lparr>l_key := \<lparr>l_relid = 16384, stmt_cnt = 0\<rparr>\<rparr>)
             (state0\<lparr>relaccesses := store128\<rparr>))) \<lparr>dbid = 2, relid = 16384\<rparr> = Some e' \<and>
         n_select e' = 4 \<and> n_insert e' = 0)"
proof -
  let ?ev2 = "env0\<lparr>MyDatabaseId := 2\<rparr>"
  let ?src2 = "staged0\<lparr>l_key := \<lparr>l_relid = 16384, stmt_cnt = 0\<rparr>\<rparr>"
  let ?s2 = "state0\<lparr>relaccesses := store128\<rparr>"
  let ?e = "entry2\<lparr>key := \<lparr>dbid = 2, relid = 16384\<rparr>\<rparr>"
  have "[0..<128] = 0 # [Suc 0..<128]"
    by (rule upt_conv_Cons) simp
  then have st: "store128 =
      ?e # map (\<lambda>i. entry2\<lparr>key := \<lparr>dbid = 2, relid = 16384 + of_nat i\<rparr>\<rparr>) [Suc 0..<128]"
    unfolding store128_def by simp
  have present: "hash_find key store128 \<lparr>dbid = 2, relid = 16384\<rparr> = Some ?e"
    by (subst st) (simp add: hash_find_def)
  have full: "length store128 = relaccess_size ?ev2" "length store128 = relaccess_size env0"
    by (simp_all add: length_store128 env0_def)
  have absent: "hash_find key [entry1] \<lparr>dbid = 1, relid = 7\<rparr> = None"
    by (simp add: hash_find_def entry1_def)
  have room: "length [entry1] < relaccess_size env0" by (simp add: env0_def)
  have src2: "\<lparr>dbid = MyDatabaseId ?ev2, relid = l_relid (l_key ?src2)\<rparr> = \<lparr>dbid = 2, relid = 16384\<rparr>"
    by simp
  have src0: "\<lparr>dbid = MyDatabaseId env0, relid = l_relid (l_key staged0)\<rparr> = \<lparr>dbid = 1, relid = 7\<rparr>"
    by (simp add: env0_def staged0_def)
  note a = C4_find_or_insert [where ev = ?ev2 and tab = store128 and k' = "\<lparr>dbid = 2, relid = 16384\<rparr>"
      and e = ?e and src = ?src2 and s = ?s2, unfolded src2]
  note b = C4_find_or_insert [where ev = env0 and tab = "[entry1]" and k' = "\<lparr>dbid = 1, relid = 7\<rparr>"
      and src = staged0 and s = "state0\<lparr>relaccesses := [entry1]\<rparr>", unfolded src0]
  note c = C4_find_or_insert [where ev = env0 and tab = store128 and k' = "\<lparr>dbid = 1, relid = 7\<rparr>"]
  from a present full(1) have
    a1: "find_or_insert ?ev2 store128 \<lparr>dbid = 2, relid = 16384\<rparr> = (store128, Some ?e, True)"
    and a2: "length (relaccesses (merge_entry ?ev2 ?src2 ?s2)) = 128"
    and a3: "warnings (merge_entry ?ev2 ?src2 ?s2) = []"
    and a4: "\<exists>e'. hash_find key (relaccesses (merge_entry ?ev2 ?src2 ?s2))
                    \<lparr>dbid = 2, relid = 16384\<rparr> = Some e' \<and> n_select e' = 4 \<and> n_insert e' = 0"
    by (auto simp: length_store128 state0_def staged0_def entry2_def acl_defs)
  from b absent room have
    b1: "find_or_insert env0 [entry1] \<lparr>dbid = 1, relid = 7\<rparr> =
           ([entry1, stale_entry\<lparr>key := \<lparr>dbid = 1, relid = 7\<rparr>\<rparr>],
            Some (stale_entry\<lparr>key := \<lparr>dbid = 1, relid = 7\<rparr>\<rparr>), False)"
    by (simp add: env0_def)
  have b2: "relaccesses (merge_entry env0 staged0 (state0\<lparr>relaccesses := [entry1]\<rparr>)) =
     [entry1,
      \<lparr>key = \<lparr>dbid = 1, relid = 7\<rparr>, relname = ''old'', last_reader_id = 12,
       last_writer_id = 0, last_read = 500, last_write = 0, n_select = 1, n_insert = 0,
       n_update = 0, n_delete = 0, n_truncate = 0\<rparr>]"
    by (simp add: commit_defs table_defs acl_defs input_defs)
  from c hash_find_store128 [of 7] full(2) have
    c1: "find_or_insert env0 store128 \<lparr>dbid = 1, relid = 7\<rparr> = (store128, None, False)"
    by simp
  from a1 a2 a3 a4 b1 b2 c1 show ?thesis by simp
qed

text \<open>
  Claim C5, as amended (the element recorded for one relation in one statement). After
  one or more accesses its permission set is the bitwise OR of theirs; \<open>last_read\<close> is
  the clock reading of the last read-classified access, or 0 when there is none, and
  \<open>last_write\<close> likewise for the write-classified ones: the code assigns the current
  reading and compares nothing. When the clock readings do not decrease from one access
  to the next, that is the maximum over the accesses of the same kind.
\<close>

theorem C5_recorded_element:
  assumes nonempty: "evs \<noteq> []"
    and absent: "hash_find l_key (local_access_entries s)
                   \<lparr>l_relid = rel, stmt_cnt = stmt_counter s\<rparr> = None"
  shows "\<exists>e. hash_find l_key (local_access_entries (record_accesses raw rel evs s))
               \<lparr>l_relid = rel, stmt_cnt = stmt_counter s\<rparr> = Some e \<and>
             perms e = foldr (OR) (map fst evs) 0 \<and>
             l_last_read e = (case filter (\<lambda>a. is_read (fst a)) evs of
                                [] \<Rightarrow> 0 | x # xs \<Rightarrow> snd (snd (last (x # xs)))) \<and>
             l_last_write e = (case filter (\<lambda>a. is_write (fst a)) evs of
                                 [] \<Rightarrow> 0 | x # xs \<Rightarrow> snd (snd (last (x # xs)))) \<and>
             (sorted (map (\<lambda>a. snd (snd a)) evs) \<longrightarrow>
                (filter (\<lambda>a. is_read (fst a)) evs \<noteq> [] \<longrightarrow>
                   l_last_read e =
                     Max ((\<lambda>a. snd (snd a)) ` set (filter (\<lambda>a. is_read (fst a)) evs))) \<and>
                (filter (\<lambda>a. is_write (fst a)) evs \<noteq> [] \<longrightarrow>
                   l_last_write e =
                     Max ((\<lambda>a. snd (snd a)) ` set (filter (\<lambda>a. is_write (fst a)) evs))))"
proof -
  from record_accesses_absent [OF absent nonempty, of raw] obtain e where
    e: "hash_find l_key (local_access_entries (record_accesses raw rel evs s))
               \<lparr>l_relid = rel, stmt_cnt = stmt_counter s\<rparr> = Some e"
      "perms e = foldr (OR) (map fst evs) 0"
      "l_last_read e = (case filter (\<lambda>a. is_read (fst a)) evs of
                                [] \<Rightarrow> 0 | x # xs \<Rightarrow> snd (snd (last (x # xs))))"
      "l_last_write e = (case filter (\<lambda>a. is_write (fst a)) evs of
                                 [] \<Rightarrow> 0 | x # xs \<Rightarrow> snd (snd (last (x # xs))))"
    by blast
  have mx: "(case filter P evs of [] \<Rightarrow> 0 | x # xs \<Rightarrow> snd (snd (last (x # xs)))) =
              Max ((\<lambda>a. snd (snd a)) ` set (filter P evs))"
    if srt0: "sorted (map (\<lambda>a. snd (snd a)) evs)" and ne: "filter P evs \<noteq> []" for P
  proof -
    from srt0 have srt: "sorted (map (\<lambda>a. snd (snd a)) (filter P evs))"
      by (rule sorted_filter)
    obtain y ys where yys: "filter P evs = y # ys"
      using ne by (cases "filter P evs") auto
    have "(case filter P evs of [] \<Rightarrow> 0 | x # xs \<Rightarrow> snd (snd (last (x # xs)))) =
            snd (snd (last (filter P evs)))"
      unfolding yys by simp
    also have "\<dots> = Max ((\<lambda>a. snd (snd a)) ` set (filter P evs))"
      using srt ne by (rule sorted_map_last_Max)
    finally show ?thesis .
  qed
  show ?thesis
    using e mx [of "\<lambda>a. is_read (fst a)"] mx [of "\<lambda>a. is_write (fst a)"]
    by (intro exI [of _ e]) simp
qed

theorem C5_recorded_element_witness:
  "sorted (map (\<lambda>a. snd (snd a))
     [(ACL_SELECT, 10 :: Oid, 1000 :: int), (ACL_INSERT, 11, 2000), (ACL_SELECT, 12, 3000)]) \<and>
   (\<exists>e. hash_find l_key (local_access_entries
            (record_accesses stale_local 7
               [(ACL_SELECT, 10, 1000), (ACL_INSERT, 11, 2000), (ACL_SELECT, 12, 3000)] state0))
            \<lparr>l_relid = 7, stmt_cnt = 0\<rparr> = Some e \<and>
        perms e = ACL_SELECT OR ACL_INSERT \<and> l_last_read e = 3000 \<and> l_last_write e = 2000)"
proof -
  let ?evs = "[(ACL_SELECT, 10 :: Oid, 1000 :: int), (ACL_INSERT, 11, 2000), (ACL_SELECT, 12, 3000)]"
  have h1: "?evs \<noteq> []" by simp
  have h2: "hash_find l_key (local_access_entries state0)
              \<lparr>l_relid = 7, stmt_cnt = stmt_counter state0\<rparr> = None"
    by (simp add: state0_def hash_find_def)
  have rd: "filter (\<lambda>a. is_read (fst a)) ?evs = [(ACL_SELECT, 10, 1000), (ACL_SELECT, 12, 3000)]"
    and wr: "filter (\<lambda>a. is_write (fst a)) ?evs = [(ACL_INSERT, 11, 2000)]"
    by (simp_all add: acl_defs)
  have sc: "stmt_counter state0 = 0" by (simp add: state0_def)
  from C5_recorded_element [OF h1 h2, of stale_local] obtain e where
    e: "hash_find l_key (local_access_entries (record_accesses stale_local 7 ?evs state0))
          \<lparr>l_relid = 7, stmt_cnt = stmt_counter state0\<rparr> = Some e"
      "perms e = foldr (OR) (map fst ?evs) 0"
      "l_last_read e = (case filter (\<lambda>a. is_read (fst a)) ?evs of
                          [] \<Rightarrow> 0 | x # xs \<Rightarrow> snd (snd (last (x # xs))))"
      "l_last_write e = (case filter (\<lambda>a. is_write (fst a)) ?evs of
                           [] \<Rightarrow> 0 | x # xs \<Rightarrow> snd (snd (last (x # xs))))"
    by blast
  from e(2) have p: "perms e = ACL_SELECT OR ACL_INSERT"
    by (simp add: acl_defs)
  from e(3) have r: "l_last_read e = 3000" unfolding rd by simp
  from e(4) have w: "l_last_write e = 2000" unfolding wr by simp
  have "sorted (map (\<lambda>a. snd (snd a)) ?evs)" by simp
  with e(1) p r w show ?thesis unfolding sc by blast
qed

text \<open>
  Claim C5 as stated fails when the clock steps back between two accesses of one
  statement: two selects at 2000 and then 1000 leave \<open>last_read = 1000\<close>, and the maximum
  is 2000.
\<close>

theorem C5_last_read_is_not_the_maximum:
  "map l_last_read (local_access_entries
      (record_accesses stale_local 7 [(ACL_SELECT, 10, 2000), (ACL_SELECT, 10, 1000)] state0)) =
     [1000] \<and>
   Max {2000, 1000 :: int} = 2000"
  by (simp add: stage_defs table_defs acl_defs input_defs Let_def)

text \<open>
  Claim C6. A permission set is classified as a write exactly when it contains at least
  one of the insert, update, delete or truncate bits, and as a read exactly when it
  contains the select bit and none of those four; no permission set is classified as
  both.
\<close>

theorem C6_classification:
  "(is_write p \<longleftrightarrow>
      (p AND ACL_INSERT) \<noteq> 0 \<or> (p AND ACL_UPDATE) \<noteq> 0 \<or>
      (p AND ACL_DELETE) \<noteq> 0 \<or> (p AND ACL_TRUNCATE) \<noteq> 0) \<and>
   (is_read p \<longleftrightarrow>
      (p AND ACL_SELECT) \<noteq> 0 \<and> (p AND ACL_INSERT) = 0 \<and> (p AND ACL_UPDATE) = 0 \<and>
      (p AND ACL_DELETE) = 0 \<and> (p AND ACL_TRUNCATE) = 0) \<and>
   \<not> (is_write p \<and> is_read p)"
  unfolding is_read_def is_write_def and_or_nonzero by blast

theorem C6_classification_witness:
  "is_read ACL_SELECT \<and> \<not> is_write ACL_SELECT \<and>
   is_write (ACL_SELECT OR ACL_UPDATE) \<and> \<not> is_read (ACL_SELECT OR ACL_UPDATE)"
  using C6_classification [of ACL_SELECT] C6_classification [of "ACL_SELECT OR ACL_UPDATE"]
  by (simp add: ACL_SELECT_def ACL_INSERT_def ACL_UPDATE_def ACL_DELETE_def ACL_TRUNCATE_def)








text \<open>
  Claim C9 (abort). The callback returns at once when collection is off (lines
  378-380), also for an abort. An insert into relation 7 is recorded, collection is
  switched off, and the transaction is rolled back: the table is unchanged, but the
  element and the cached name are still there after the abort, and the commit of the
  next transaction, with collection on again, merges the rolled-back insert into the
  shared table.
\<close>

theorem C9_abort_while_disabled_keeps_entries:
  "relaccesses rolled_back_while_disabled = [] \<and>
   local_access_entries rolled_back_while_disabled =
     [\<lparr>l_key = \<lparr>l_relid = 7, stmt_cnt = 0\<rparr>, l_last_reader_id = 77, l_last_writer_id = 10,
       l_last_read = 0, l_last_write = 1000, perms = ACL_INSERT\<rparr>] \<and>
   relname_cache rolled_back_while_disabled = [\<lparr>c_relid = 7, c_relname = ''t''\<rparr>] \<and>
   relaccesses committed_after_rollback =
     [\<lparr>key = \<lparr>dbid = 1, relid = 7\<rparr>, relname = ''t'', last_reader_id = 0, last_writer_id = 10,
       last_read = 0, last_write = 1000, n_select = 0, n_insert = 1, n_update = 0, n_delete = 0,
       n_truncate = 0\<rparr>]"
  by (simp add: committed_after_rollback_def rolled_back_while_disabled_def stage_defs
      commit_defs table_defs acl_defs input_defs)

text \<open>
  With collection on in a dispatcher session, an abort empties both tables of the
  transaction and changes nothing else; the shared table is unchanged by an abort in
  every case.
\<close>

lemma relaccess_xact_callback_abort:
  "relaccesses (relaccess_xact_callback ev XACT_EVENT_ABORT s) = relaccesses s \<and>
   dumpfiles (relaccess_xact_callback ev XACT_EVENT_ABORT s) = dumpfiles s \<and>
   (Gp_role ev = GP_ROLE_DISPATCH \<and> is_enabled ev \<longrightarrow>
      relaccess_xact_callback ev XACT_EVENT_ABORT s =
        s\<lparr>local_access_entries := [], relname_cache := []\<rparr>)"
  by (simp add: relaccess_xact_callback_def)

text \<open>
  Claim C10 (the side of an element that no access set). The table holds no negative
  time. An element of the transaction recorded from write-classified accesses only has
  \<open>last_read = 0\<close>; merging it leaves \<open>last_read\<close> and \<open>last_reader_id\<close> of the key in the
  table as they were, and 0 and \<open>InvalidOid\<close> when the merge enters the key. So the
  \<open>last_reader_id\<close> that the element kept from the free hash element is never
  stored. The same holds for read-classified accesses and the write side.
\<close>

theorem C10_unset_side_not_merged:
  fixes ev :: env and st :: state
  assumes inv: "\<forall>d\<in>set (relaccesses st). 0 \<le> last_read d \<and> 0 \<le> last_write d"
    and nonempty: "evs \<noteq> []"
    and absent: "hash_find l_key (local_access_entries s)
                   \<lparr>l_relid = rel, stmt_cnt = stmt_counter s\<rparr> = None"
  shows "\<exists>src. hash_find l_key (local_access_entries (record_accesses raw rel evs s))
                 \<lparr>l_relid = rel, stmt_cnt = stmt_counter s\<rparr> = Some src \<and>
     ((\<forall>a\<in>set evs. is_write (fst a)) \<longrightarrow>
        l_last_read src = 0 \<and>
        (\<forall>e'. hash_find key (relaccesses (merge_entry ev src st))
                \<lparr>dbid = MyDatabaseId ev, relid = rel\<rparr> = Some e' \<longrightarrow>
           (case hash_find key (relaccesses st) \<lparr>dbid = MyDatabaseId ev, relid = rel\<rparr> of
              Some e0 \<Rightarrow> last_read e' = last_read e0 \<and> last_reader_id e' = last_reader_id e0
            | None \<Rightarrow> last_read e' = 0 \<and> last_reader_id e' = InvalidOid))) \<and>
     ((\<forall>a\<in>set evs. is_read (fst a)) \<longrightarrow>
        l_last_write src = 0 \<and>
        (\<forall>e'. hash_find key (relaccesses (merge_entry ev src st))
                \<lparr>dbid = MyDatabaseId ev, relid = rel\<rparr> = Some e' \<longrightarrow>
           (case hash_find key (relaccesses st) \<lparr>dbid = MyDatabaseId ev, relid = rel\<rparr> of
              Some e0 \<Rightarrow> last_write e' = last_write e0 \<and> last_writer_id e' = last_writer_id e0
            | None \<Rightarrow> last_write e' = 0 \<and> last_writer_id e' = InvalidOid)))"
proof -
  from record_accesses_absent [OF absent nonempty, of raw] obtain src where
    src: "hash_find l_key (local_access_entries (record_accesses raw rel evs s))
               \<lparr>l_relid = rel, stmt_cnt = stmt_counter s\<rparr> = Some src"
      "l_last_read src = (case filter (\<lambda>a. is_read (fst a)) evs of
                                [] \<Rightarrow> 0 | x # xs \<Rightarrow> snd (snd (last (x # xs))))"
      "l_last_write src = (case filter (\<lambda>a. is_write (fst a)) evs of
                                 [] \<Rightarrow> 0 | x # xs \<Rightarrow> snd (snd (last (x # xs))))"
    by blast
  have rel: "l_relid (l_key src) = rel"
    using hash_find_Some_key [OF src(1)] by simp
  have w: "l_last_read src = 0" if "\<forall>a\<in>set evs. is_write (fst a)"
  proof -
    from that have "filter (\<lambda>a. is_read (fst a)) evs = []"
      by (simp add: filter_empty_conv is_read_def)
    with src(2) show ?thesis by simp
  qed
  have r: "l_last_write src = 0" if "\<forall>a\<in>set evs. is_read (fst a)"
  proof -
    from that have "filter (\<lambda>a. is_write (fst a)) evs = []"
      by (auto simp: filter_empty_conv is_read_def)
    with src(3) show ?thesis by simp
  qed
  from inv have invr: "\<forall>d\<in>set (relaccesses st). 0 \<le> last_read d"
    and invw: "\<forall>d\<in>set (relaccesses st). 0 \<le> last_write d" by simp_all
  show ?thesis
    using src(1) w r merge_entry_unset_read [OF invr, of src ev] merge_entry_unset_write [OF invw, of src ev]
    unfolding rel
    by (intro exI [of _ src]) blast
qed

theorem C10_unset_side_not_merged_witness:
  "is_write ACL_INSERT \<and> 0 \<le> last_read entry0 \<and> 0 \<le> last_write entry0 \<and>
   (\<exists>src e'. hash_find l_key (local_access_entries
                 (record_accesses stale_local 7 [(ACL_INSERT, 11, 2000)] state0))
                 \<lparr>l_relid = 7, stmt_cnt = 0\<rparr> = Some src \<and>
      l_last_read src = 0 \<and> l_last_reader_id src = 77 \<and>
      hash_find key (relaccesses (merge_entry env0 src (state0\<lparr>relaccesses := [entry0]\<rparr>)))
        \<lparr>dbid = 1, relid = 7\<rparr> = Some e' \<and>
      last_read e' = 100 \<and> last_reader_id e' = 10 \<and> last_write e' = 2000)"
proof -
  let ?st = "state0\<lparr>relaccesses := [entry0]\<rparr>"
  let ?evs = "[(ACL_INSERT, 11 :: Oid, 2000 :: int)]"
  have h1: "\<forall>d\<in>set (relaccesses ?st). 0 \<le> last_read d \<and> 0 \<le> last_write d"
    by (simp add: entry0_def)
  have h2: "?evs \<noteq> []" by simp
  have h3: "hash_find l_key (local_access_entries state0)
              \<lparr>l_relid = 7, stmt_cnt = stmt_counter state0\<rparr> = None"
    by (simp add: state0_def hash_find_def)
  have w: "\<forall>a\<in>set ?evs. is_write (fst a)" by (simp add: acl_defs)
  from C10_unset_side_not_merged [OF h1 h2 h3, of stale_local env0] w obtain src where
    src: "hash_find l_key (local_access_entries (record_accesses stale_local 7 ?evs state0))
            \<lparr>l_relid = 7, stmt_cnt = stmt_counter state0\<rparr> = Some src"
      "l_last_read src = 0"
      "\<forall>e'. hash_find key (relaccesses (merge_entry env0 src ?st))
               \<lparr>dbid = MyDatabaseId env0, relid = 7\<rparr> = Some e' \<longrightarrow>
          (case hash_find key (relaccesses ?st) \<lparr>dbid = MyDatabaseId env0, relid = 7\<rparr> of
             Some e0 \<Rightarrow> last_read e' = last_read e0 \<and> last_reader_id e' = last_reader_id e0
           | None \<Rightarrow> last_read e' = 0 \<and> last_reader_id e' = InvalidOid)"
    by blast
  have src_eq: "src = \<lparr>l_key = \<lparr>l_relid = 7, stmt_cnt = 0\<rparr>, l_last_reader_id = 77,
                      l_last_writer_id = 11, l_last_read = 0, l_last_write = 2000,
                      perms = ACL_INSERT\<rparr>"
    using src(1) by (simp add: stage_defs table_defs acl_defs input_defs)
  obtain e' where e': "hash_find key (relaccesses (merge_entry env0 src ?st))
                         \<lparr>dbid = MyDatabaseId env0, relid = 7\<rparr> = Some e'"
    and lw: "last_write e' = 2000"
    unfolding src_eq by (simp add: commit_defs table_defs acl_defs input_defs)
  from src(3) e' have "last_read e' = 100 \<and> last_reader_id e' = 10"
    by (auto simp: hash_find_def input_defs)
  with src(1,2) src_eq e' lw have
    "hash_find l_key (local_access_entries (record_accesses stale_local 7 ?evs state0))
       \<lparr>l_relid = 7, stmt_cnt = 0\<rparr> = Some src \<and>
     l_last_read src = 0 \<and> l_last_reader_id src = 77 \<and>
     hash_find key (relaccesses (merge_entry env0 src ?st)) \<lparr>dbid = 1, relid = 7\<rparr> = Some e' \<and>
     last_read e' = 100 \<and> last_reader_id e' = 10 \<and> last_write e' = 2000"
    by (simp add: input_defs)
  then have "\<exists>src e'. hash_find l_key (local_access_entries
                 (record_accesses stale_local 7 ?evs state0))
                 \<lparr>l_relid = 7, stmt_cnt = 0\<rparr> = Some src \<and>
      l_last_read src = 0 \<and> l_last_reader_id src = 77 \<and>
      hash_find key (relaccesses (merge_entry env0 src ?st)) \<lparr>dbid = 1, relid = 7\<rparr> = Some e' \<and>
      last_read e' = 100 \<and> last_reader_id e' = 10 \<and> last_write e' = 2000"
    by blast
  moreover have "is_write ACL_INSERT \<and> 0 \<le> last_read entry0 \<and> 0 \<le> last_write entry0"
    by (simp add: acl_defs entry0_def)
  ultimately show ?thesis by blast
qed

end
